theory Spec2Isabelle
  imports Main "HOL-Library.AList"
begin

section \<open>The chat server of \<^verbatim>\<open>server.js\<close> as a state machine\<close>

text \<open>
  The server keeps two insertion-ordered JavaScript Maps, \<^verbatim>\<open>clients\<close> (username to socket)
  and \<^verbatim>\<open>socketData\<close> (socket to the per-connection object). A Map is modelled as an
  association list: \<open>map_of\<close> is \<^verbatim>\<open>get\<close>, \<open>AList.update\<close> is \<^verbatim>\<open>set\<close> (an existing key keeps its
  place, a new key goes to the end) and \<open>AList.delete\<close> is \<^verbatim>\<open>delete\<close>. A socket object is
  identified by a number. Node runs every event handler to completion, so each handler is
  one function from state to state. Everything handed to \<^verbatim>\<open>socket.write\<close> is appended to the
  log \<open>written\<close>; a failing write is caught and dropped by \<^verbatim>\<open>sendToSocket\<close>, so the log records
  the attempts in order. \<^verbatim>\<open>console.log\<close> output is not modelled. A string is a list of
  characters; \<^verbatim>\<open>length\<close> counts characters, as the JavaScript \<^verbatim>\<open>length\<close> counts string units.
  The chunk of a \<^verbatim>\<open>data\<close> event is the string that \<^verbatim>\<open>chunk.toString('utf8')\<close> gives, so the
  decoding itself is not part of the model; a character is one of U+0000 to U+00FF, and
  \<^verbatim>\<open>trim\<close> and \<^verbatim>\<open>toUpperCase\<close> are those of the runtime on these characters. Each handler
  run takes one reading of \<^verbatim>\<open>Date.now()\<close>, the argument \<open>now\<close>. A handler that reads a field of \<^verbatim>\<open>undefined\<close> throws a TypeError: that is the
  result \<open>None\<close>.
\<close>

type_synonym socket = nat

record session =
  username :: "string option"
  lastActivity :: nat
  buffer :: string

record server =
  clients :: "(string \<times> socket) list"
  socketData :: "(socket \<times> session) list"
  written :: "(socket \<times> string) list"
  destroyed :: "(socket \<times> nat) list"
  timers :: "socket list"
  accepting :: bool
  exitCode :: "nat option"
  nextSocket :: socket

definition IDLE_TIMEOUT_MS :: int where
  "IDLE_TIMEOUT_MS = 60000"

definition initial :: server where
  "initial = \<lparr>clients = [], socketData = [], written = [], destroyed = [], timers = [],
     accepting = True, exitCode = None, nextSocket = 0\<rparr>"

subsection \<open>String helpers of the JavaScript runtime\<close>

definition newline :: char where
  "newline = CHR 0x0A"

text \<open>\<^verbatim>\<open>String.prototype.trim\<close> on the characters a \<open>char\<close> can hold: tab, line feed,
  vertical tab, form feed, carriage return, space and the no-break space.\<close>

definition isWhiteSpace :: "char \<Rightarrow> bool" where
  "isWhiteSpace c = ((of_char c :: nat) \<in> {9, 10, 11, 12, 13, 32, 160})"

definition trim :: "string \<Rightarrow> string" where
  "trim s = rev (dropWhile isWhiteSpace (rev (dropWhile isWhiteSpace s)))"

text \<open>\<^verbatim>\<open>s.split(' ')\<close>: a cut at every single space, empty pieces kept.\<close>

fun split_sp :: "string \<Rightarrow> string list" where
  "split_sp [] = [[]]"
| "split_sp (c # cs) =
     (if c = CHR '' '' then [] # split_sp cs
      else (case split_sp cs of [] \<Rightarrow> [[c]] | w # ws \<Rightarrow> (c # w) # ws))"

text \<open>\<^verbatim>\<open>parts.join(' ')\<close>.\<close>

fun join_sp :: "string list \<Rightarrow> string" where
  "join_sp [] = []"
| "join_sp [w] = w"
| "join_sp (w # ws) = w @ CHR '' '' # join_sp ws"

text \<open>\<^verbatim>\<open>toUpperCase\<close> on the characters a \<open>char\<close> can hold (U+0000 to U+00FF): the letters
  \<^verbatim>\<open>a\<close> to \<^verbatim>\<open>z\<close> and U+00E0 to U+00FE, the division sign U+00F7 apart, move down by 32; the
  sharp s U+00DF becomes the two letters \<^verbatim>\<open>SS\<close>; every other character stays. Two characters
  have an upper case that no \<open>char\<close> holds, the micro sign U+00B5 (U+039C) and U+00FF (U+0178):
  the model leaves them as they are, which like the true result is no ASCII letter, so a token
  with one of them is no command in the model and none in the program; only the token shown
  in the reply \<^verbatim>\<open>ERR unknown-command\<close> then carries the character unchanged.\<close>

definition toUpper :: "char \<Rightarrow> string" where
  "toUpper c =
     (let n = (of_char c :: nat)
      in if (97 \<le> n \<and> n \<le> 122) \<or> (224 \<le> n \<and> n \<le> 254 \<and> n \<noteq> 247) then [char_of (n - 32)]
         else if n = 223 then ''SS''
         else [c])"

definition toUpperCase :: "string \<Rightarrow> string" where
  "toUpperCase s = concat (map toUpper s)"

text \<open>\<^verbatim>\<open>s.indexOf(c)\<close>, with \<open>None\<close> for \<^verbatim>\<open>-1\<close>.\<close>

definition indexOf :: "char \<Rightarrow> string \<Rightarrow> nat option" where
  "indexOf c s = (if c \<in> set s then Some (length (takeWhile (\<lambda>x. x \<noteq> c) s)) else None)"

text \<open>The truth value of \<^verbatim>\<open>data.username\<close>: \<^verbatim>\<open>null\<close> and the empty string are false.\<close>

fun truthy :: "string option \<Rightarrow> bool" where
  "truthy None = False"
| "truthy (Some u) = (u \<noteq> [])"

subsection \<open>Helper functions\<close>

definition sendToSocket :: "socket \<Rightarrow> string \<Rightarrow> server \<Rightarrow> server" where
  "sendToSocket socket message st = st\<lparr>written := written st @ [(socket, message @ [newline])]\<rparr>"

text \<open>\<^verbatim>\<open>broadcast(message, excludeSocket = null)\<close> walks the entries of \<^verbatim>\<open>clients\<close>.\<close>

definition broadcast :: "string \<Rightarrow> socket option \<Rightarrow> server \<Rightarrow> server" where
  "broadcast message excludeSocket st =
     foldl (\<lambda>acc (username, socket).
              if Some socket \<noteq> excludeSocket then sendToSocket socket message acc else acc)
       st (clients st)"

definition sendPrivateMessage :: "string \<Rightarrow> string \<Rightarrow> string \<Rightarrow> server \<Rightarrow> bool \<times> server" where
  "sendPrivateMessage fromUsername toUsername text st =
     (case map_of (clients st) toUsername of
        None \<Rightarrow> (False, st)
      | Some recipientSocket \<Rightarrow>
          (True, sendToSocket recipientSocket (''DM '' @ fromUsername @ '' '' @ text) st))"

definition updateActivity :: "socket \<Rightarrow> nat \<Rightarrow> server \<Rightarrow> server" where
  "updateActivity socket now st =
     (case map_of (socketData st) socket of
        None \<Rightarrow> st
      | Some data \<Rightarrow>
          st\<lparr>socketData := AList.update socket (data\<lparr>lastActivity := now\<rparr>) (socketData st)\<rparr>)"

definition removeUser :: "socket \<Rightarrow> bool \<Rightarrow> server \<Rightarrow> server" where
  "removeUser socket notify st =
     (let st1 =
        (case map_of (socketData st) socket of
           None \<Rightarrow> st
         | Some data \<Rightarrow>
             (if truthy (username data) then
                (let u = the (username data);
                     st' = st\<lparr>clients := AList.delete u (clients st)\<rparr>
                 in if notify then broadcast (''INFO '' @ u @ '' disconnected'') None st' else st')
              else st))
      in st1\<lparr>socketData := AList.delete socket (socketData st1)\<rparr>)"

definition isNameChar :: "char \<Rightarrow> bool" where
  "isNameChar c =
     (let n = (of_char c :: nat)
      in (97 \<le> n \<and> n \<le> 122) \<or> (65 \<le> n \<and> n \<le> 90) \<or> (48 \<le> n \<and> n \<le> 57) \<or> n = 95 \<or> n = 45)"

definition isValidUsername :: "string \<Rightarrow> bool" where
  "isValidUsername u = (u \<noteq> [] \<and> 0 < length u \<and> length u \<le> 20 \<and> list_all isNameChar u)"

subsection \<open>Command handlers\<close>

definition handleLogin :: "socket \<Rightarrow> string \<Rightarrow> server \<Rightarrow> server option" where
  "handleLogin socket name st =
     (case map_of (socketData st) socket of
        None \<Rightarrow> None
      | Some data \<Rightarrow>
          if truthy (username data) then Some (sendToSocket socket ''ERR already-logged-in'' st)
          else if \<not> isValidUsername name then Some (sendToSocket socket ''ERR invalid-username'' st)
          else if map_of (clients st) name \<noteq> None then
            Some (sendToSocket socket ''ERR username-taken'' st)
          else
            (let st1 = st\<lparr>socketData :=
                           AList.update socket (data\<lparr>username := Some name\<rparr>) (socketData st)\<rparr>;
                 st2 = st1\<lparr>clients := AList.update name socket (clients st1)\<rparr>;
                 st3 = sendToSocket socket ''OK'' st2
             in Some (broadcast (''INFO '' @ name @ '' joined'') (Some socket) st3)))"

definition handleMessage :: "socket \<Rightarrow> string \<Rightarrow> server \<Rightarrow> server option" where
  "handleMessage socket text st =
     (case map_of (socketData st) socket of
        None \<Rightarrow> None
      | Some data \<Rightarrow>
          if \<not> truthy (username data) then Some (sendToSocket socket ''ERR not-logged-in'' st)
          else if text = [] \<or> length (trim text) = 0 then
            Some (sendToSocket socket ''ERR empty-message'' st)
          else
            Some (broadcast (''MSG '' @ the (username data) @ '' '' @ trim text) None st))"

definition handleWho :: "socket \<Rightarrow> server \<Rightarrow> server option" where
  "handleWho socket st =
     (case map_of (socketData st) socket of
        None \<Rightarrow> None
      | Some data \<Rightarrow>
          if \<not> truthy (username data) then Some (sendToSocket socket ''ERR not-logged-in'' st)
          else
            (let usernames = map fst (clients st)
             in if length usernames = 0 then Some (sendToSocket socket ''INFO no-users'' st)
                else Some (foldl (\<lambda>acc u. sendToSocket socket (''USER '' @ u) acc) st usernames)))"

definition handleDirectMessage :: "socket \<Rightarrow> string \<Rightarrow> string \<Rightarrow> server \<Rightarrow> server option" where
  "handleDirectMessage socket targetUsername text st =
     (case map_of (socketData st) socket of
        None \<Rightarrow> None
      | Some data \<Rightarrow>
          if \<not> truthy (username data) then Some (sendToSocket socket ''ERR not-logged-in'' st)
          else if targetUsername = [] \<or> text = [] then
            Some (sendToSocket socket ''ERR invalid-dm-format'' st)
          else if Some targetUsername = username data then
            Some (sendToSocket socket ''ERR cannot-dm-self'' st)
          else
            (case sendPrivateMessage (the (username data)) targetUsername (trim text) st of
               (True, st1) \<Rightarrow> Some (sendToSocket socket (''DM-SENT '' @ targetUsername) st1)
             | (False, st1) \<Rightarrow> Some (sendToSocket socket ''ERR user-not-found'' st1)))"

definition handlePing :: "socket \<Rightarrow> server \<Rightarrow> server" where
  "handlePing socket st = sendToSocket socket ''PONG'' st"

text \<open>\<^verbatim>\<open>parts[0]\<close> of an empty array would be \<^verbatim>\<open>undefined\<close>, and its \<^verbatim>\<open>toUpperCase\<close> a TypeError.\<close>

definition processCommand :: "socket \<Rightarrow> string \<Rightarrow> nat \<Rightarrow> server \<Rightarrow> server option" where
  "processCommand socket line now st =
     (let trimmedLine = trim line in
      if trimmedLine = [] then Some st
      else
        (let st1 = updateActivity socket now st;
             parts = split_sp trimmedLine
         in case parts of
              [] \<Rightarrow> None
            | p0 # _ \<Rightarrow>
               (let command = toUpperCase p0 in
                if command = ''LOGIN'' then
                  (if length parts < 2 then Some (sendToSocket socket ''ERR missing-username'' st1)
                   else handleLogin socket (parts ! 1) st1)
                else if command = ''MSG'' then
                  (if length parts < 2 then Some (sendToSocket socket ''ERR empty-message'' st1)
                   else handleMessage socket (join_sp (drop 1 parts)) st1)
                else if command = ''WHO'' then handleWho socket st1
                else if command = ''DM'' then
                  (if length parts < 3 then Some (sendToSocket socket ''ERR invalid-dm-format'' st1)
                   else handleDirectMessage socket (parts ! 1) (join_sp (drop 2 parts)) st1)
                else if command = ''PING'' then Some (handlePing socket st1)
                else Some (sendToSocket socket (''ERR unknown-command: '' @ command) st1))))"

subsection \<open>What a write and a broadcast add to the log\<close>

lemma sendToSocket_simps [simp]:
  "clients (sendToSocket s m st) = clients st"
  "socketData (sendToSocket s m st) = socketData st"
  "written (sendToSocket s m st) = written st @ [(s, m @ [newline])]"
  "destroyed (sendToSocket s m st) = destroyed st"
  "timers (sendToSocket s m st) = timers st"
  "accepting (sendToSocket s m st) = accepting st"
  "exitCode (sendToSocket s m st) = exitCode st"
  "nextSocket (sendToSocket s m st) = nextSocket st"
  by (simp_all add: sendToSocket_def)

text \<open>The sockets a broadcast writes to, in order: the values of \<^verbatim>\<open>clients\<close> apart from the
  excluded socket.\<close>

definition recipients :: "socket option \<Rightarrow> server \<Rightarrow> socket list" where
  "recipients excludeSocket st = filter (\<lambda>s. Some s \<noteq> excludeSocket) (map snd (clients st))"

lemma broadcast_foldl:
  "foldl (\<lambda>acc (username, socket).
              if Some socket \<noteq> ex then sendToSocket socket m acc else acc) st xs
   = st\<lparr>written := written st @
          map (\<lambda>s. (s, m @ [newline])) (filter (\<lambda>s. Some s \<noteq> ex) (map snd xs))\<rparr>"
  by (induction xs arbitrary: st) (auto simp: sendToSocket_def)

lemma broadcast_eq:
  "broadcast m ex st =
     st\<lparr>written := written st @ map (\<lambda>s. (s, m @ [newline])) (recipients ex st)\<rparr>"
  by (simp add: broadcast_def broadcast_foldl recipients_def)

lemma who_foldl:
  "foldl (\<lambda>acc u. sendToSocket socket (f u) acc) st us
   = st\<lparr>written := written st @ map (\<lambda>u. (socket, f u @ [newline])) us\<rparr>"
  by (induction us arbitrary: st) (auto simp: sendToSocket_def)

lemma updateActivity_simps [simp]:
  "clients (updateActivity s now st) = clients st"
  "written (updateActivity s now st) = written st"
  "destroyed (updateActivity s now st) = destroyed st"
  "timers (updateActivity s now st) = timers st"
  "accepting (updateActivity s now st) = accepting st"
  "exitCode (updateActivity s now st) = exitCode st"
  "nextSocket (updateActivity s now st) = nextSocket st"
  by (simp_all add: updateActivity_def split: option.splits)

subsection \<open>No command touches an input buffer\<close>

definition bufferOf :: "socket \<Rightarrow> server \<Rightarrow> string" where
  "bufferOf socket st = (case map_of (socketData st) socket of None \<Rightarrow> [] | Some d \<Rightarrow> buffer d)"

lemma updateActivity_bufferOf: "bufferOf k (updateActivity s now st) = bufferOf k st"
  by (auto simp: updateActivity_def bufferOf_def update_conv' split: option.splits)

lemma handleLogin_bufferOf: "handleLogin s n st = Some st' \<Longrightarrow> bufferOf k st' = bufferOf k st"
  by (auto simp: handleLogin_def bufferOf_def broadcast_eq update_conv' Let_def
           split: option.splits if_splits)

lemma handleMessage_bufferOf: "handleMessage s t st = Some st' \<Longrightarrow> bufferOf k st' = bufferOf k st"
  by (auto simp: handleMessage_def bufferOf_def broadcast_eq split: option.splits if_splits)

lemma handleWho_bufferOf: "handleWho s st = Some st' \<Longrightarrow> bufferOf k st' = bufferOf k st"
  by (auto simp: handleWho_def bufferOf_def who_foldl Let_def split: option.splits if_splits)

lemma handleDirectMessage_bufferOf:
  "handleDirectMessage s t x st = Some st' \<Longrightarrow> bufferOf k st' = bufferOf k st"
  by (auto simp: handleDirectMessage_def sendPrivateMessage_def bufferOf_def
           split: option.splits if_splits)

lemma processCommand_bufferOf:
  assumes "processCommand s line now st = Some st'"
  shows "bufferOf k st' = bufferOf k st"
proof -
  have u: "bufferOf k (updateActivity s now st) = bufferOf k st"
    by (rule updateActivity_bufferOf)
  have snd: "\<And>m x. bufferOf k (sendToSocket s m x) = bufferOf k x"
    by (simp add: bufferOf_def)
  from assms show ?thesis
    unfolding processCommand_def Let_def
    by (auto simp: u snd handlePing_def split: if_splits list.splits
             dest!: handleLogin_bufferOf[where k=k] handleMessage_bufferOf[where k=k]
                    handleWho_bufferOf[where k=k] handleDirectMessage_bufferOf[where k=k])
qed

lemma takeWhile_less: "c \<in> set s \<Longrightarrow> length (takeWhile (\<lambda>x. x \<noteq> c) s) < length s"
  by (induction s) auto

lemma indexOf_less: "indexOf c s = Some i \<Longrightarrow> i < length s"
  by (auto simp: indexOf_def takeWhile_less split: if_splits)

subsection \<open>Connection handling\<close>

text \<open>\<^verbatim>\<open>handleConnection\<close> registers the session object and starts the connection's interval
  timer; \<open>timers\<close> lists the sockets whose timer has not been cleared.\<close>

definition handleConnection :: "socket \<Rightarrow> nat \<Rightarrow> server \<Rightarrow> server" where
  "handleConnection socket now st =
     st\<lparr>socketData :=
          AList.update socket \<lparr>username = None, lastActivity = now, buffer = []\<rparr> (socketData st),
        timers := timers st @ [socket]\<rparr>"

text \<open>The \<^verbatim>\<open>while\<close> loop of the \<^verbatim>\<open>data\<close> handler. The handler holds the session object in
  \<^verbatim>\<open>data\<close>; the model reads it from \<open>socketData\<close> at each round, which is the same object as
  long as the entry is not deleted, and no command deletes one.\<close>

function drainBuffer :: "socket \<Rightarrow> nat \<Rightarrow> server \<Rightarrow> server option" where
  "drainBuffer socket now st =
     (case map_of (socketData st) socket of
        None \<Rightarrow> Some st
      | Some data \<Rightarrow>
          (case indexOf newline (buffer data) of
             None \<Rightarrow> Some st
           | Some newlineIndex \<Rightarrow>
               (let line = take newlineIndex (buffer data);
                    st1 = st\<lparr>socketData :=
                            AList.update socket
                              (data\<lparr>buffer := drop (newlineIndex + 1) (buffer data)\<rparr>)
                              (socketData st)\<rparr>
                in case processCommand socket line now st1 of
                     None \<Rightarrow> None
                   | Some st2 \<Rightarrow> drainBuffer socket now st2)))"
  by pat_completeness auto
termination
proof (relation "measure (\<lambda>(socket, now, st). length (bufferOf socket st))")
  show "wf (measure (\<lambda>(socket, now, st). length (bufferOf socket st)))"
    by simp
next
  fix socket :: socket and now :: nat and st :: server and data newlineIndex line st1 st2
  assume d: "map_of (socketData st) socket = Some data"
    and i: "indexOf newline (buffer data) = Some newlineIndex"
    and l: "line = take newlineIndex (buffer data)"
    and s1: "st1 = st\<lparr>socketData :=
                      AList.update socket
                        (data\<lparr>buffer := drop (newlineIndex + 1) (buffer data)\<rparr>)
                        (socketData st)\<rparr>"
    and p: "processCommand socket line now st1 = Some st2"
  have "bufferOf socket st2 = bufferOf socket st1"
    using p by (rule processCommand_bufferOf)
  also have "\<dots> = drop (newlineIndex + 1) (buffer data)"
    by (simp add: s1 bufferOf_def update_conv')
  finally have "length (bufferOf socket st2) < length (buffer data)"
    using indexOf_less[OF i] by simp
  moreover have "bufferOf socket st = buffer data"
    using d by (simp add: bufferOf_def)
  ultimately show "((socket, now, st2), (socket, now, st))
      \<in> measure (\<lambda>(socket, now, st). length (bufferOf socket st))"
    by simp
qed

definition onData :: "socket \<Rightarrow> string \<Rightarrow> nat \<Rightarrow> server \<Rightarrow> server option" where
  "onData socket chunk now st =
     (case map_of (socketData st) socket of
        None \<Rightarrow> Some st
      | Some data \<Rightarrow>
          (let st1 = st\<lparr>socketData :=
                        AList.update socket (data\<lparr>buffer := buffer data @ chunk\<rparr>) (socketData st)\<rparr>
           in case drainBuffer socket now st1 of
                None \<Rightarrow> None
              | Some st2 \<Rightarrow>
                  (case map_of (socketData st2) socket of
                     None \<Rightarrow> Some st2
                   | Some data2 \<Rightarrow>
                       if length (buffer data2) > 4096 then
                         (let st3 = sendToSocket socket ''ERR message-too-long'' st2
                          in Some (st3\<lparr>socketData :=
                                     AList.update socket (data2\<lparr>buffer := []\<rparr>) (socketData st3)\<rparr>))
                       else Some st2)))"

definition clearInterval :: "socket \<Rightarrow> server \<Rightarrow> server" where
  "clearInterval socket st = st\<lparr>timers := removeAll socket (timers st)\<rparr>"

definition onEnd :: "socket \<Rightarrow> server \<Rightarrow> server" where
  "onEnd socket st = removeUser socket True (clearInterval socket st)"

definition onError :: "socket \<Rightarrow> server \<Rightarrow> server" where
  "onError socket st = removeUser socket False (clearInterval socket st)"

text \<open>\<^verbatim>\<open>socket.destroy()\<close>. The entry records the socket and how many lines had been handed to
  \<^verbatim>\<open>socket.write\<close> before the call, so that the order of writes and destroys can be read off
  the two logs.\<close>

definition destroy :: "socket \<Rightarrow> server \<Rightarrow> server" where
  "destroy socket st = st\<lparr>destroyed := destroyed st @ [(socket, length (written st))]\<rparr>"

definition isDestroyed :: "server \<Rightarrow> socket \<Rightarrow> bool" where
  "isDestroyed st socket = (socket \<in> fst ` set (destroyed st))"

text \<open>One firing of the connection's interval timer.\<close>

definition onTick :: "socket \<Rightarrow> nat \<Rightarrow> server \<Rightarrow> server" where
  "onTick socket now st =
     (case map_of (socketData st) socket of
        None \<Rightarrow> clearInterval socket st
      | Some data \<Rightarrow>
          (let idleTime = int now - int (lastActivity data)
           in if idleTime > IDLE_TIMEOUT_MS then
                clearInterval socket
                  (destroy socket
                    (removeUser socket True (sendToSocket socket ''ERR idle-timeout'' st)))
              else st))"

text \<open>The SIGINT handler: the broadcast, the destroy of every key of \<^verbatim>\<open>socketData\<close>, and
  \<^verbatim>\<open>server.close(callback)\<close>, which stops accepting at once. The callback is a handler of its
  own, \<open>onServerClosed\<close>; it runs when the server has closed, and calls \<^verbatim>\<open>process.exit(0)\<close>.\<close>

definition onSigint :: "server \<Rightarrow> server" where
  "onSigint st =
     (let st1 = broadcast ''INFO server-shutting-down'' None st;
          st2 = foldl (\<lambda>acc socket. destroy socket acc) st1 (map fst (socketData st1))
      in st2\<lparr>accepting := False\<rparr>)"

definition onServerClosed :: "server \<Rightarrow> server" where
  "onServerClosed st = st\<lparr>exitCode := Some 0\<rparr>"

subsection \<open>Events and runs\<close>

text \<open>The events Node delivers: a new connection (which brings a socket object never seen
  before), a chunk of data, the peer's end of stream, a socket error, a timer firing, the
  interrupt signal, and the close of the server. The numbers are the readings of
  \<^verbatim>\<open>Date.now()\<close>. Three rules of the runtime are written as guards: no connection arrives once
  \<^verbatim>\<open>server.close\<close> was called; a timer fires only until it is cleared; the server closes, and
  the callback of \<^verbatim>\<open>server.close\<close> runs, only after \<^verbatim>\<open>server.close\<close> was called and once no
  connection is left open, that is, every socket still in \<^verbatim>\<open>socketData\<close> has been destroyed
  (the others have ended or failed). Data, end and error events are let in for any socket at
  any time, a destroyed one too: that is more than the runtime delivers, so what holds for
  every run of the model holds for every run of the program. After the exit no handler runs
  any more.\<close>

datatype event =
  Connect nat
| Data socket string nat
| End socket
| SocketError socket
| Tick socket nat
| Sigint
| ServerClosed

fun step :: "event \<Rightarrow> server \<Rightarrow> server option" where
  "step e st =
     (if exitCode st \<noteq> None then Some st
      else case e of
        Connect now \<Rightarrow>
          Some (if accepting st then
                  handleConnection (nextSocket st) now (st\<lparr>nextSocket := Suc (nextSocket st)\<rparr>)
                else st)
      | Data socket chunk now \<Rightarrow> onData socket chunk now st
      | End socket \<Rightarrow> Some (onEnd socket st)
      | SocketError socket \<Rightarrow> Some (onError socket st)
      | Tick socket now \<Rightarrow> Some (if socket \<in> set (timers st) then onTick socket now st else st)
      | Sigint \<Rightarrow> Some (onSigint st)
      | ServerClosed \<Rightarrow>
          Some (if \<not> accepting st \<and> list_all (isDestroyed st) (map fst (socketData st))
                then onServerClosed st else st))"

fun run :: "event list \<Rightarrow> server \<Rightarrow> server option" where
  "run [] st = Some st"
| "run (e # es) st = (case step e st of None \<Rightarrow> None | Some st' \<Rightarrow> run es st')"

section \<open>Definitions used to state the properties\<close>

text \<open>The registry invariant. Both Maps have each key once. The username index maps \<open>u\<close> to
  \<open>s\<close> exactly when the session object of \<open>s\<close> carries the username \<open>u\<close>. A username that is
  set is a valid one, and every socket in use was handed out by an earlier connection.\<close>

definition keys_distinct :: "server \<Rightarrow> bool" where
  "keys_distinct st \<longleftrightarrow> distinct (map fst (clients st)) \<and> distinct (map fst (socketData st))"

definition index_consistent :: "server \<Rightarrow> bool" where
  "index_consistent st \<longleftrightarrow>
     (\<forall>u s. map_of (clients st) u = Some s \<longleftrightarrow>
            (\<exists>d. map_of (socketData st) s = Some d \<and> username d = Some u)) \<and>
     (\<forall>s d u. map_of (socketData st) s = Some d \<longrightarrow> username d = Some u \<longrightarrow> isValidUsername u) \<and>
     (\<forall>s d. map_of (socketData st) s = Some d \<longrightarrow> s < nextSocket st)"

definition registry_inv :: "server \<Rightarrow> bool" where
  "registry_inv st \<longleftrightarrow> keys_distinct st \<and> index_consistent st"

text \<open>A direct reply is an error line or the heartbeat answer. \<open>data_rel s\<close> relates the states
  before and after commands of socket \<open>s\<close>: the other sessions are untouched, the index only
  grows, and every new line goes to a socket of the index or is a direct reply to \<open>s\<close>.\<close>

definition directReply :: "string \<Rightarrow> bool" where
  "directReply m = (m = ''PONG'' @ [newline] \<or> take 4 m = ''ERR '')"

definition data_rel :: "socket \<Rightarrow> server \<Rightarrow> server \<Rightarrow> bool" where
  "data_rel s st st' \<longleftrightarrow>
     destroyed st' = destroyed st \<and> timers st' = timers st \<and> accepting st' = accepting st \<and>
     exitCode st' = exitCode st \<and> nextSocket st' = nextSocket st \<and>
     (\<forall>t. t \<noteq> s \<longrightarrow> map_of (socketData st') t = map_of (socketData st) t) \<and>
     ((map_of (socketData st') s = None) = (map_of (socketData st) s = None)) \<and>
     set (clients st) \<subseteq> set (clients st') \<and>
     (\<exists>new. written st' = written st @ new \<and>
        (\<forall>(t, m) \<in> set new. t \<in> snd ` set (clients st') \<or> (t = s \<and> directReply m)))"

text \<open>The socket an event belongs to, if any.\<close>

definition subject :: "event \<Rightarrow> socket option" where
  "subject e =
     (case e of
        Connect now \<Rightarrow> None
      | Data socket chunk now \<Rightarrow> Some socket
      | End socket \<Rightarrow> Some socket
      | SocketError socket \<Rightarrow> Some socket
      | Tick socket now \<Rightarrow> Some socket
      | Sigint \<Rightarrow> None
      | ServerClosed \<Rightarrow> None)"

text \<open>The validity rule in the words of the specification: 1 to 20 characters, each one of
  \<^verbatim>\<open>[a-zA-Z0-9_-]\<close>. It is compared with \<open>isValidUsername\<close>, which follows the code.\<close>

definition nameAlphabet :: string where
  "nameAlphabet = ''abcdefghijklmnopqrstuvwxyzABCDEFGHIJKLMNOPQRSTUVWXYZ0123456789_-''"

definition specValidUsername :: "string \<Rightarrow> bool" where
  "specValidUsername n \<longleftrightarrow> 1 \<le> length n \<and> length n \<le> 20 \<and> set n \<subseteq> set nameAlphabet"

text \<open>The state in which \<open>rest\<close> stands at the end of the buffer of session \<open>s\<close>. No command
  reads a buffer, so every command does to this state what it does to the state without
  \<open>rest\<close>; this is how a chunk with complete lines and a rest is followed through the loop.\<close>

definition appendBuffer :: "socket \<Rightarrow> string \<Rightarrow> server \<Rightarrow> server" where
  "appendBuffer s rest st =
     (case map_of (socketData st) s of
        None \<Rightarrow> st
      | Some d \<Rightarrow> st\<lparr>socketData := AList.update s (d\<lparr>buffer := buffer d @ rest\<rparr>) (socketData st)\<rparr>)"




definition alice_and_two :: server where
  "alice_and_two =
     \<lparr>clients = [(''alice'', 0)],
      socketData = [(0, \<lparr>username = Some ''alice'', lastActivity = 1, buffer = ''''\<rparr>),
                    (1, \<lparr>username = None, lastActivity = 0, buffer = ''''\<rparr>),
                    (2, \<lparr>username = None, lastActivity = 0, buffer = ''''\<rparr>)],
      written = [(0, ''OK\<newline>'')],
      destroyed = [], timers = [0, 1, 2], accepting = True, exitCode = None, nextSocket = 3\<rparr>"

definition alice_and_bob :: server where
  "alice_and_bob =
     \<lparr>clients = [(''alice'', 0), (''bob'', 1)],
      socketData = [(0, \<lparr>username = Some ''alice'', lastActivity = 1, buffer = ''''\<rparr>),
                    (1, \<lparr>username = Some ''bob'', lastActivity = 2, buffer = ''''\<rparr>),
                    (2, \<lparr>username = None, lastActivity = 0, buffer = ''''\<rparr>)],
      written = [(0, ''OK\<newline>''), (1, ''OK\<newline>''), (0, ''INFO bob joined\<newline>'')],
      destroyed = [], timers = [0, 1, 2], accepting = True, exitCode = None, nextSocket = 3\<rparr>"

definition bob_joined :: server where
  "bob_joined =
     \<lparr>clients = [(''bob'', 1)],
      socketData = [(0, \<lparr>username = None, lastActivity = 0, buffer = ''''\<rparr>),
                    (1, \<lparr>username = Some ''bob'', lastActivity = 5, buffer = ''''\<rparr>)],
      written = [(1, ''OK\<newline>'')],
      destroyed = [], timers = [0, 1], accepting = True, exitCode = None, nextSocket = 2\<rparr>"

section \<open>The registry invariant is kept by every handler\<close>

lemma inv_cong:
  "clients st' = clients st \<Longrightarrow> socketData st' = socketData st \<Longrightarrow> nextSocket st' = nextSocket st
   \<Longrightarrow> registry_inv st' = registry_inv st"
  by (simp add: registry_inv_def keys_distinct_def index_consistent_def)

lemma inv_sendToSocket [simp]: "registry_inv (sendToSocket s m st) = registry_inv st"
  by (rule inv_cong) simp_all

lemma inv_broadcast [simp]: "registry_inv (broadcast m ex st) = registry_inv st"
  by (rule inv_cong) (simp_all add: broadcast_eq)

lemma consistent_session_update:
  assumes "index_consistent st" "map_of (socketData st) s = Some d" "username d' = username d"
  shows "index_consistent (st\<lparr>socketData := AList.update s d' (socketData st)\<rparr>)"
  using assms unfolding index_consistent_def
  by (auto simp: update_conv')

lemma inv_session_update:
  assumes "registry_inv st" "map_of (socketData st) s = Some d" "username d' = username d"
  shows "registry_inv (st\<lparr>socketData := AList.update s d' (socketData st)\<rparr>)"
  using assms consistent_session_update[of st s d d']
  by (simp add: registry_inv_def keys_distinct_def distinct_update)

lemma inv_updateActivity: "registry_inv st \<Longrightarrow> registry_inv (updateActivity s now st)"
  by (auto simp: updateActivity_def intro: inv_session_update split: option.splits)

lemma inv_not_truthy:
  "registry_inv st \<Longrightarrow> map_of (socketData st) s = Some d \<Longrightarrow> \<not> truthy (username d)
   \<Longrightarrow> username d = None"
  by (cases "username d") (auto simp: registry_inv_def index_consistent_def isValidUsername_def)

lemma inv_truthy:
  "registry_inv st \<Longrightarrow> map_of (socketData st) s = Some d \<Longrightarrow> username d = Some u
   \<Longrightarrow> truthy (username d) \<and> map_of (clients st) u = Some s"
  by (auto simp: registry_inv_def index_consistent_def isValidUsername_def)

lemma consistent_unique:
  assumes "index_consistent st" "map_of (socketData st) s1 = Some d1" "username d1 = Some u"
    "map_of (socketData st) s2 = Some d2" "username d2 = Some u"
  shows "s1 = s2"
proof -
  have "map_of (clients st) u = Some s1" "map_of (clients st) u = Some s2"
    using assms unfolding index_consistent_def by blast+
  then show ?thesis by simp
qed

lemma consistent_free:
  assumes "index_consistent st" "map_of (clients st) n = None"
    "map_of (socketData st) s = Some d"
  shows "username d \<noteq> Some n"
proof
  assume "username d = Some n"
  then have "map_of (clients st) n = Some s"
    using assms unfolding index_consistent_def by blast
  with assms(2) show False by simp
qed

lemma consistentD_iff:
  "index_consistent st \<Longrightarrow>
   (map_of (clients st) u = Some s) =
   (\<exists>d. map_of (socketData st) s = Some d \<and> username d = Some u)"
  unfolding index_consistent_def by blast

lemma consistentD_valid:
  "index_consistent st \<Longrightarrow> map_of (socketData st) s = Some d \<Longrightarrow> username d = Some u
   \<Longrightarrow> isValidUsername u"
  unfolding index_consistent_def by blast

lemma consistentD_bound:
  "index_consistent st \<Longrightarrow> map_of (socketData st) s = Some d \<Longrightarrow> s < nextSocket st"
  unfolding index_consistent_def by blast

lemma consistentI:
  assumes "\<And>u s. (map_of (clients st) u = Some s) =
                  (\<exists>d. map_of (socketData st) s = Some d \<and> username d = Some u)"
    and "\<And>s d u. map_of (socketData st) s = Some d \<Longrightarrow> username d = Some u \<Longrightarrow> isValidUsername u"
    and "\<And>s d. map_of (socketData st) s = Some d \<Longrightarrow> s < nextSocket st"
  shows "index_consistent st"
  unfolding index_consistent_def using assms by blast

lemma consistent_login:
  assumes inv: "index_consistent st" and d: "map_of (socketData st) s = Some d"
    and nu: "username d = None" and v: "isValidUsername n" and free: "map_of (clients st) n = None"
  shows "index_consistent (st\<lparr>socketData := AList.update s (d\<lparr>username := Some n\<rparr>) (socketData st),
                         clients := AList.update n s (clients st)\<rparr>)"
proof (rule consistentI)
  fix u' s'
  let ?st = "st\<lparr>socketData := AList.update s (d\<lparr>username := Some n\<rparr>) (socketData st),
                         clients := AList.update n s (clients st)\<rparr>"
  have f1: "\<And>d'. map_of (socketData st) s' = Some d' \<Longrightarrow> username d' \<noteq> Some n"
    using consistent_free[OF inv free] by blast
  note f2 = consistentD_iff[OF inv, of u' s']
  show "(map_of (clients ?st) u' = Some s') =
        (\<exists>d. map_of (socketData ?st) s' = Some d \<and> username d = Some u')"
  proof (cases "s' = s")
    case True
    have "map_of (clients st) u' \<noteq> Some s"
      using consistentD_iff[OF inv, of u' s] d nu by simp
    then show ?thesis using True by (simp add: update_conv')
  next
    case False
    show ?thesis
    proof (cases "u' = n")
      case True
      then show ?thesis using False f1 by (auto simp: update_conv')
    next
      case neq: False
      then show ?thesis using False f2 by (simp add: update_conv')
    qed
  qed
next
  fix s' d' u'
  assume "map_of (socketData (st\<lparr>socketData := AList.update s (d\<lparr>username := Some n\<rparr>) (socketData st),
                         clients := AList.update n s (clients st)\<rparr>)) s' = Some d'"
    and "username d' = Some u'"
  then show "isValidUsername u'"
    using v consistentD_valid[OF inv, of s' d' u']
    by (cases "s' = s") (auto simp: update_conv')
next
  fix s' d'
  assume "map_of (socketData (st\<lparr>socketData := AList.update s (d\<lparr>username := Some n\<rparr>) (socketData st),
                         clients := AList.update n s (clients st)\<rparr>)) s' = Some d'"
  then show "s' < nextSocket (st\<lparr>socketData := AList.update s (d\<lparr>username := Some n\<rparr>) (socketData st),
                         clients := AList.update n s (clients st)\<rparr>)"
    using consistentD_bound[OF inv d] consistentD_bound[OF inv, of s' d']
    by (cases "s' = s") (auto simp: update_conv')
qed

lemma inv_login:
  assumes inv: "registry_inv st" and d: "map_of (socketData st) s = Some d"
    and nu: "username d = None" and v: "isValidUsername n" and free: "map_of (clients st) n = None"
  shows "registry_inv (st\<lparr>socketData := AList.update s (d\<lparr>username := Some n\<rparr>) (socketData st),
                         clients := AList.update n s (clients st)\<rparr>)"
  using assms consistent_login[of st s d n]
  by (simp add: registry_inv_def keys_distinct_def distinct_update)

lemma consistent_remove_named:
  assumes inv: "index_consistent st" and d: "map_of (socketData st) s = Some d"
    and nu: "username d = Some u"
  shows "index_consistent (st\<lparr>clients := AList.delete u (clients st),
                              socketData := AList.delete s (socketData st)\<rparr>)"
    (is "index_consistent ?st")
proof (rule consistentI)
  fix u' s'
  note f2 = consistentD_iff[OF inv, of u' s']
  show "(map_of (clients ?st) u' = Some s') =
        (\<exists>d. map_of (socketData ?st) s' = Some d \<and> username d = Some u')"
  proof (cases "s' = s")
    case True
    have "map_of (clients st) u' = Some s \<Longrightarrow> u' = u"
      using consistentD_iff[OF inv, of u' s] d nu by simp
    then show ?thesis using True by (auto simp: delete_conv')
  next
    case False
    show ?thesis
    proof (cases "u' = u")
      case True
      have "\<And>d'. map_of (socketData st) s' = Some d' \<Longrightarrow> username d' \<noteq> Some u"
        using consistent_unique[OF inv _ _ d nu, of s'] False by blast
      then show ?thesis using False True by (auto simp: delete_conv')
    next
      case neq: False
      then show ?thesis using False f2 by (simp add: delete_conv')
    qed
  qed
next
  fix s' d' u'
  assume "map_of (socketData ?st) s' = Some d'" and "username d' = Some u'"
  then show "isValidUsername u'"
    using consistentD_valid[OF inv, of s' d' u']
    by (cases "s' = s") (auto simp: delete_conv')
next
  fix s' d'
  assume "map_of (socketData ?st) s' = Some d'"
  then show "s' < nextSocket ?st"
    using consistentD_bound[OF inv, of s' d']
    by (cases "s' = s") (auto simp: delete_conv')
qed

lemma consistent_remove_anon:
  assumes inv: "index_consistent st" and d: "map_of (socketData st) s = Some d"
    and nu: "username d = None"
  shows "index_consistent (st\<lparr>socketData := AList.delete s (socketData st)\<rparr>)"
    (is "index_consistent ?st")
proof (rule consistentI)
  fix u' s'
  note f2 = consistentD_iff[OF inv, of u' s']
  show "(map_of (clients ?st) u' = Some s') =
        (\<exists>d. map_of (socketData ?st) s' = Some d \<and> username d = Some u')"
  proof (cases "s' = s")
    case True
    have "map_of (clients st) u' \<noteq> Some s"
      using consistentD_iff[OF inv, of u' s] d nu by simp
    then show ?thesis using True by (simp add: delete_conv')
  next
    case False
    then show ?thesis using f2 by (simp add: delete_conv')
  qed
next
  fix s' d' u'
  assume "map_of (socketData ?st) s' = Some d'" and "username d' = Some u'"
  then show "isValidUsername u'"
    using consistentD_valid[OF inv, of s' d' u']
    by (cases "s' = s") (auto simp: delete_conv')
next
  fix s' d'
  assume "map_of (socketData ?st) s' = Some d'"
  then show "s' < nextSocket ?st"
    using consistentD_bound[OF inv, of s' d']
    by (cases "s' = s") (auto simp: delete_conv')
qed

lemma consistent_remove_absent:
  assumes inv: "index_consistent st" and d: "map_of (socketData st) s = None"
  shows "index_consistent (st\<lparr>socketData := AList.delete s (socketData st)\<rparr>)"
proof -
  have "map_of (AList.delete s (socketData st)) = map_of (socketData st)"
    using d by (auto simp: delete_conv')
  then show ?thesis using inv unfolding index_consistent_def by simp
qed

lemma consistent_connect:
  assumes inv: "index_consistent st"
  shows "index_consistent (st\<lparr>nextSocket := Suc (nextSocket st),
      socketData := AList.update (nextSocket st)
         \<lparr>username = None, lastActivity = now, buffer = []\<rparr> (socketData st)\<rparr>)"
    (is "index_consistent ?st")
proof (rule consistentI)
  let ?s = "nextSocket st"
  have fresh: "map_of (socketData st) ?s = None"
  proof (cases "map_of (socketData st) ?s")
    case (Some d)
    then have "?s < ?s" using consistentD_bound[OF inv] by blast
    then show ?thesis by simp
  qed simp
  fix u' s'
  note f2 = consistentD_iff[OF inv, of u' s']
  show "(map_of (clients ?st) u' = Some s') =
        (\<exists>d. map_of (socketData ?st) s' = Some d \<and> username d = Some u')"
  proof (cases "s' = ?s")
    case True
    have "map_of (clients st) u' \<noteq> Some ?s"
      using consistentD_iff[OF inv, of u' ?s] fresh by simp
    then show ?thesis using True by (simp add: update_conv')
  next
    case False
    then show ?thesis using f2 by (simp add: update_conv')
  qed
next
  fix s' d' u'
  assume "map_of (socketData ?st) s' = Some d'" and "username d' = Some u'"
  then show "isValidUsername u'"
    using consistentD_valid[OF inv, of s' d' u']
    by (cases "s' = nextSocket st") (auto simp: update_conv')
next
  fix s' d'
  assume "map_of (socketData ?st) s' = Some d'"
  then show "s' < nextSocket ?st"
    using consistentD_bound[OF inv, of s' d']
    by (cases "s' = nextSocket st") (auto simp: update_conv' less_Suc_eq)
qed

subsection \<open>The result of each handler, written out\<close>

lemma update_append: "map_of al k = None \<Longrightarrow> AList.update k v al = al @ [(k, v)]"
  by (induction al) (auto split: if_splits)

lemma handleLogin_eq:
  assumes "map_of (socketData st) s = Some d"
  shows "handleLogin s n st = Some
     (if truthy (username d) then sendToSocket s ''ERR already-logged-in'' st
      else if \<not> isValidUsername n then sendToSocket s ''ERR invalid-username'' st
      else if map_of (clients st) n \<noteq> None then sendToSocket s ''ERR username-taken'' st
      else st\<lparr>socketData := AList.update s (d\<lparr>username := Some n\<rparr>) (socketData st),
              clients := clients st @ [(n, s)],
              written := written st @ (s, ''OK'' @ [newline]) #
                 map (\<lambda>t. (t, ''INFO '' @ n @ '' joined'' @ [newline]))
                     (filter (\<lambda>t. t \<noteq> s) (map snd (clients st)))\<rparr>)"
  using assms
  by (auto simp: handleLogin_def Let_def broadcast_eq recipients_def update_append sendToSocket_def)

lemma handleMessage_eq:
  assumes "map_of (socketData st) s = Some d"
  shows "handleMessage s text st = Some
     (if \<not> truthy (username d) then sendToSocket s ''ERR not-logged-in'' st
      else if trim text = [] then sendToSocket s ''ERR empty-message'' st
      else st\<lparr>written := written st @
                 map (\<lambda>t. (t, ''MSG '' @ the (username d) @ '' '' @ trim text @ [newline]))
                     (map snd (clients st))\<rparr>)"
proof -
  have "trim [] = []" by (simp add: trim_def)
  then show ?thesis using assms
    by (auto simp: handleMessage_def broadcast_eq recipients_def)
qed

lemma handleWho_eq:
  assumes "map_of (socketData st) s = Some d"
  shows "handleWho s st = Some
     (if \<not> truthy (username d) then sendToSocket s ''ERR not-logged-in'' st
      else if clients st = [] then sendToSocket s ''INFO no-users'' st
      else st\<lparr>written := written st @
                 map (\<lambda>u. (s, ''USER '' @ u @ [newline])) (map fst (clients st))\<rparr>)"
  using assms by (auto simp: handleWho_def Let_def who_foldl comp_def)

lemma handleDirectMessage_eq:
  assumes "map_of (socketData st) s = Some d"
  shows "handleDirectMessage s target text st = Some
     (if \<not> truthy (username d) then sendToSocket s ''ERR not-logged-in'' st
      else if target = [] \<or> text = [] then sendToSocket s ''ERR invalid-dm-format'' st
      else if Some target = username d then sendToSocket s ''ERR cannot-dm-self'' st
      else (case map_of (clients st) target of
              None \<Rightarrow> sendToSocket s ''ERR user-not-found'' st
            | Some r \<Rightarrow> st\<lparr>written := written st @
                 [(r, ''DM '' @ the (username d) @ '' '' @ trim text @ [newline]),
                  (s, ''DM-SENT '' @ target @ [newline])]\<rparr>))"
  using assms
  by (auto simp: handleDirectMessage_def sendPrivateMessage_def sendToSocket_def
           split: option.splits)

lemma removeUser_eq:
  "removeUser s notify st =
     (case map_of (socketData st) s of
        None \<Rightarrow> st
      | Some d \<Rightarrow>
          if truthy (username d) then
            st\<lparr>clients := AList.delete (the (username d)) (clients st),
               written := written st @
                 (if notify then
                    map (\<lambda>t. (t, ''INFO '' @ the (username d) @ '' disconnected'' @ [newline]))
                        (map snd (AList.delete (the (username d)) (clients st)))
                  else []),
               socketData := AList.delete s (socketData st)\<rparr>
          else st\<lparr>socketData := AList.delete s (socketData st)\<rparr>)"
proof (cases "map_of (socketData st) s")
  case None
  then have "s \<notin> fst ` set (socketData st)"
    by (simp add: map_of_eq_None_iff)
  then have "AList.delete s (socketData st) = socketData st" by simp
  with None show ?thesis by (simp add: removeUser_def)
next
  case (Some d)
  then show ?thesis
    by (simp add: removeUser_def Let_def broadcast_eq recipients_def)
qed

subsection \<open>What one chunk of data can change\<close>

lemma data_rel_refl: "data_rel s st st"
  by (simp add: data_rel_def)

lemma data_rel_trans:
  assumes "data_rel s st1 st2" "data_rel s st2 st3"
  shows "data_rel s st1 st3"
proof -
  from assms(1) obtain n1 where n1: "written st2 = written st1 @ n1"
    "\<forall>(t, m) \<in> set n1. t \<in> snd ` set (clients st2) \<or> (t = s \<and> directReply m)"
    unfolding data_rel_def by blast
  from assms(2) obtain n2 where n2: "written st3 = written st2 @ n2"
    "\<forall>(t, m) \<in> set n2. t \<in> snd ` set (clients st3) \<or> (t = s \<and> directReply m)"
    unfolding data_rel_def by blast
  have sub: "set (clients st2) \<subseteq> set (clients st3)"
    using assms(2) unfolding data_rel_def by blast
  have w: "written st3 = written st1 @ (n1 @ n2)" using n1 n2 by simp
  have "\<forall>(t, m) \<in> set (n1 @ n2). t \<in> snd ` set (clients st3) \<or> (t = s \<and> directReply m)"
    using n1(2) n2(2) sub by fastforce
  with w have "\<exists>new. written st3 = written st1 @ new \<and>
        (\<forall>(t, m) \<in> set new. t \<in> snd ` set (clients st3) \<or> (t = s \<and> directReply m))"
    by blast
  moreover have "destroyed st3 = destroyed st1 \<and> timers st3 = timers st1 \<and>
     accepting st3 = accepting st1 \<and> exitCode st3 = exitCode st1 \<and> nextSocket st3 = nextSocket st1 \<and>
     (\<forall>t. t \<noteq> s \<longrightarrow> map_of (socketData st3) t = map_of (socketData st1) t) \<and>
     ((map_of (socketData st3) s = None) = (map_of (socketData st1) s = None)) \<and>
     set (clients st1) \<subseteq> set (clients st3)"
    using assms unfolding data_rel_def by auto
  ultimately show ?thesis unfolding data_rel_def by blast
qed

lemma data_rel_session_update:
  assumes "map_of (socketData st) s = Some d"
  shows "data_rel s st (st\<lparr>socketData := AList.update s d' (socketData st)\<rparr>)"
  using assms by (simp add: data_rel_def update_conv')

lemma data_rel_updateActivity: "data_rel s st (updateActivity s now st)"
  by (auto simp: updateActivity_def data_rel_refl data_rel_session_update split: option.splits)

lemma data_rel_direct:
  "directReply (m @ [newline]) \<Longrightarrow> data_rel s st (sendToSocket s m st)"
  by (simp add: data_rel_def)

lemma data_rel_member:
  "s \<in> snd ` set (clients st) \<Longrightarrow> data_rel s st (sendToSocket s m st)"
  by (simp add: data_rel_def)

lemma inv_member:
  assumes "registry_inv st" "map_of (socketData st) s = Some d" "truthy (username d)"
  shows "s \<in> snd ` set (clients st)"
proof -
  from assms(3) obtain u where u: "username d = Some u" by (cases "username d") auto
  have "map_of (clients st) u = Some s"
    using inv_truthy[OF assms(1,2) u] by simp
  then have "(u, s) \<in> set (clients st)" by (rule map_of_SomeD)
  then show ?thesis by force
qed

lemma snd_imageI: "(a, b) \<in> A \<Longrightarrow> b \<in> snd ` A"
  by force

lemma data_rel_handleLogin:
  assumes "registry_inv st" "handleLogin s n st = Some st'"
  shows "data_rel s st st'"
proof (cases "map_of (socketData st) s")
  case None
  with assms(2) show ?thesis by (simp add: handleLogin_def)
next
  case (Some d)
  show ?thesis
    using assms(2) inv_member[OF assms(1) Some] Some
    unfolding handleLogin_eq[OF Some]
    by (auto simp: data_rel_direct directReply_def data_rel_def update_conv' split: if_splits)
qed

lemma data_rel_handleMessage:
  assumes "registry_inv st" "handleMessage s x st = Some st'"
  shows "data_rel s st st'"
proof (cases "map_of (socketData st) s")
  case None
  with assms(2) show ?thesis by (simp add: handleMessage_def)
next
  case (Some d)
  show ?thesis
    using assms(2) unfolding handleMessage_eq[OF Some]
    by (auto simp: data_rel_direct directReply_def data_rel_def split: if_splits)
qed

lemma data_rel_handleWho:
  assumes "registry_inv st" "handleWho s st = Some st'"
  shows "data_rel s st st'"
proof (cases "map_of (socketData st) s")
  case None
  with assms(2) show ?thesis by (simp add: handleWho_def)
next
  case (Some d)
  show ?thesis
    using assms(2) inv_member[OF assms(1) Some]
    unfolding handleWho_eq[OF Some]
    by (auto simp: data_rel_direct data_rel_member directReply_def data_rel_def split: if_splits
             intro: snd_imageI)
qed

lemma data_rel_handleDirectMessage:
  assumes "registry_inv st" "handleDirectMessage s t x st = Some st'"
  shows "data_rel s st st'"
proof (cases "map_of (socketData st) s")
  case None
  with assms(2) show ?thesis by (simp add: handleDirectMessage_def)
next
  case (Some d)
  show ?thesis
    using assms(2) inv_member[OF assms(1) Some]
    unfolding handleDirectMessage_eq[OF Some]
    by (auto simp: data_rel_direct directReply_def data_rel_def
             split: if_splits option.splits dest!: map_of_SomeD intro: snd_imageI)
qed

lemma split_sp_nonempty: "split_sp s \<noteq> []"
  by (induction s) (auto split: list.splits)

lemma processCommand_cases:
  assumes "processCommand s line now st = Some st'"
  shows "st' = st
       \<or> (\<exists>m. directReply (m @ [newline]) \<and> st' = sendToSocket s m (updateActivity s now st))
       \<or> (\<exists>n. handleLogin s n (updateActivity s now st) = Some st')
       \<or> (\<exists>x. handleMessage s x (updateActivity s now st) = Some st')
       \<or> handleWho s (updateActivity s now st) = Some st'
       \<or> (\<exists>t x. handleDirectMessage s t x (updateActivity s now st) = Some st')"
proof -
  have e: "\<And>c. directReply ((''ERR unknown-command: '' @ c) @ [newline])"
    "directReply (''ERR missing-username'' @ [newline])"
    "directReply (''ERR empty-message'' @ [newline])"
    "directReply (''ERR invalid-dm-format'' @ [newline])"
    "directReply (''PONG'' @ [newline])"
    by (simp_all add: directReply_def)
  from assms show ?thesis
    unfolding processCommand_def Let_def handlePing_def
    by (auto split: if_splits list.splits intro: e)
qed

lemma inv_handleLogin:
  assumes "registry_inv st" "handleLogin s n st = Some st'"
  shows "registry_inv st'"
proof (cases "map_of (socketData st) s")
  case None
  with assms(2) show ?thesis by (simp add: handleLogin_def)
next
  case (Some d)
  show ?thesis
  proof (cases "\<not> truthy (username d) \<and> isValidUsername n \<and> map_of (clients st) n = None")
    case True
    then have nu: "username d = None" using inv_not_truthy[OF assms(1) Some] by simp
    have "registry_inv (st\<lparr>socketData := AList.update s (d\<lparr>username := Some n\<rparr>) (socketData st),
                         clients := AList.update n s (clients st)\<rparr>)"
      using inv_login[OF assms(1) Some nu] True by simp
    then have "registry_inv (st\<lparr>socketData := AList.update s (d\<lparr>username := Some n\<rparr>) (socketData st),
                         clients := clients st @ [(n, s)]\<rparr>)"
      using True by (simp add: update_append)
    moreover have "registry_inv st' = registry_inv (st\<lparr>socketData := AList.update s (d\<lparr>username := Some n\<rparr>) (socketData st),
                         clients := clients st @ [(n, s)]\<rparr>)"
      using assms(2) True unfolding handleLogin_eq[OF Some]
      by (intro inv_cong) auto
    ultimately show ?thesis by simp
  next
    case False
    then show ?thesis using assms unfolding handleLogin_eq[OF Some]
      by (auto split: if_splits)
  qed
qed

lemma inv_handleMessage:
  assumes "registry_inv st" "handleMessage s x st = Some st'"
  shows "registry_inv st'"
proof (cases "map_of (socketData st) s")
  case None
  with assms(2) show ?thesis by (simp add: handleMessage_def)
next
  case (Some d)
  have "registry_inv st' = registry_inv st"
    using assms(2) unfolding handleMessage_eq[OF Some]
    by (intro inv_cong) (auto split: if_splits)
  with assms(1) show ?thesis by simp
qed

lemma inv_handleWho:
  assumes "registry_inv st" "handleWho s st = Some st'"
  shows "registry_inv st'"
proof (cases "map_of (socketData st) s")
  case None
  with assms(2) show ?thesis by (simp add: handleWho_def)
next
  case (Some d)
  have "registry_inv st' = registry_inv st"
    using assms(2) unfolding handleWho_eq[OF Some]
    by (intro inv_cong) (auto split: if_splits)
  with assms(1) show ?thesis by simp
qed

lemma inv_handleDirectMessage:
  assumes "registry_inv st" "handleDirectMessage s t x st = Some st'"
  shows "registry_inv st'"
proof (cases "map_of (socketData st) s")
  case None
  with assms(2) show ?thesis by (simp add: handleDirectMessage_def)
next
  case (Some d)
  have "registry_inv st' = registry_inv st"
    using assms(2) unfolding handleDirectMessage_eq[OF Some]
    by (intro inv_cong) (auto split: if_splits option.splits)
  with assms(1) show ?thesis by simp
qed

lemma inv_processCommand:
  assumes "registry_inv st" "processCommand s line now st = Some st'"
  shows "registry_inv st'"
  using processCommand_cases[OF assms(2)] assms(1) inv_updateActivity[OF assms(1), of s now]
  by (auto dest: inv_handleLogin inv_handleMessage inv_handleWho inv_handleDirectMessage)

lemma data_rel_processCommand:
  assumes "registry_inv st" "processCommand s line now st = Some st'"
  shows "data_rel s st st'"
proof -
  let ?st1 = "updateActivity s now st"
  have i1: "registry_inv ?st1" by (rule inv_updateActivity[OF assms(1)])
  have r1: "data_rel s st ?st1" by (rule data_rel_updateActivity)
  have "st' = st \<or> data_rel s ?st1 st'"
    using processCommand_cases[OF assms(2)] i1
    by (auto dest: data_rel_handleLogin data_rel_handleMessage data_rel_handleWho
                   data_rel_handleDirectMessage intro: data_rel_direct)
  then show ?thesis using r1 data_rel_refl data_rel_trans by blast
qed

lemma updateActivity_present:
  "(map_of (socketData (updateActivity s now st)) t = None) = (map_of (socketData st) t = None)"
  by (auto simp: updateActivity_def update_conv' split: option.splits)

lemma processCommand_total:
  assumes "map_of (socketData st) s \<noteq> None"
  shows "processCommand s line now st \<noteq> None"
proof -
  obtain d where d: "map_of (socketData (updateActivity s now st)) s = Some d"
    using assms updateActivity_present[of s now st s] by auto
  show ?thesis
    unfolding processCommand_def Let_def
    using split_sp_nonempty[of "trim line"]
    by (auto simp: handleLogin_eq[OF d] handleMessage_eq[OF d] handleWho_eq[OF d]
                   handleDirectMessage_eq[OF d] split: list.splits)
qed






declare drainBuffer.simps [simp del]

lemma drainBuffer_props:
  assumes "registry_inv st"
  shows "\<exists>st'. drainBuffer s now st = Some st' \<and> registry_inv st' \<and> data_rel s st st'
          \<and> indexOf newline (bufferOf s st') = None"
  using assms
proof (induction s now st rule: drainBuffer.induct)
  case (1 socket now st)
  show ?case
  proof (cases "map_of (socketData st) socket")
    case None
    then show ?thesis
      using "1.prems" by (simp add: drainBuffer.simps[of socket now st] data_rel_refl bufferOf_def indexOf_def)
  next
    case (Some data)
    show ?thesis
    proof (cases "indexOf newline (buffer data)")
      case None
      then show ?thesis
        using Some "1.prems"
        by (simp add: drainBuffer.simps[of socket now st] data_rel_refl bufferOf_def)
    next
      case (Some i)
      let ?st1 = "st\<lparr>socketData :=
                      AList.update socket (data\<lparr>buffer := drop (i + 1) (buffer data)\<rparr>)
                        (socketData st)\<rparr>"
      note d = \<open>map_of (socketData st) socket = Some data\<close>
      have i1: "registry_inv ?st1"
        using inv_session_update[OF "1.prems" d] by simp
      have r1: "data_rel socket st ?st1"
        by (rule data_rel_session_update[OF d])
      have "map_of (socketData ?st1) socket \<noteq> None" by (simp add: update_conv')
      then obtain st2 where p: "processCommand socket (take i (buffer data)) now ?st1 = Some st2"
        using processCommand_total[of ?st1 socket "take i (buffer data)" now] by auto
      have i2: "registry_inv st2" by (rule inv_processCommand[OF i1 p])
      have r2: "data_rel socket ?st1 st2" by (rule data_rel_processCommand[OF i1 p])
      from "1.IH"[OF d Some refl refl p i2]
      obtain st' where st': "drainBuffer socket now st2 = Some st'" "registry_inv st'"
        "data_rel socket st2 st'" "indexOf newline (bufferOf socket st') = None"
        by blast
      have "drainBuffer socket now st = Some st'"
        using d Some p st'(1) by (simp add: drainBuffer.simps[of socket now st] Let_def)
      moreover have "data_rel socket st st'"
        using r1 r2 st'(3) data_rel_trans by blast
      ultimately show ?thesis using st'(2,4) by blast
    qed
  qed
qed




subsection \<open>Every event keeps the invariant and never throws\<close>

lemma inv_removeUser:
  assumes "registry_inv st"
  shows "registry_inv (removeUser s notify st)"
proof (cases "map_of (socketData st) s")
  case None
  then show ?thesis using assms by (simp add: removeUser_eq)
next
  case (Some d)
  have kd: "keys_distinct st" and ic: "index_consistent st"
    using assms by (simp_all add: registry_inv_def)
  show ?thesis
  proof (cases "username d")
    case None
    have "index_consistent (st\<lparr>socketData := AList.delete s (socketData st)\<rparr>)"
      by (rule consistent_remove_anon[OF ic Some None])
    moreover have "keys_distinct (st\<lparr>socketData := AList.delete s (socketData st)\<rparr>)"
      using kd by (simp add: keys_distinct_def distinct_delete)
    ultimately show ?thesis using Some None by (simp add: removeUser_eq registry_inv_def)
  next
    case u: (Some u)
    let ?st = "st\<lparr>clients := AList.delete u (clients st),
                  socketData := AList.delete s (socketData st)\<rparr>"
    have t: "truthy (username d)" using inv_truthy[OF assms Some u] by simp
    have "index_consistent ?st"
      by (rule consistent_remove_named[OF ic Some u])
    moreover have "keys_distinct ?st"
      using kd by (simp add: keys_distinct_def distinct_delete)
    ultimately have "registry_inv ?st" by (simp add: registry_inv_def)
    moreover have "registry_inv (removeUser s notify st) = registry_inv ?st"
      using Some u t by (intro inv_cong) (simp_all add: removeUser_eq)
    ultimately show ?thesis by simp
  qed
qed

lemma inv_handleConnection:
  assumes "registry_inv st"
  shows "registry_inv (handleConnection (nextSocket st) now (st\<lparr>nextSocket := Suc (nextSocket st)\<rparr>))"
proof -
  let ?st = "st\<lparr>nextSocket := Suc (nextSocket st),
      socketData := AList.update (nextSocket st)
         \<lparr>username = None, lastActivity = now, buffer = []\<rparr> (socketData st)\<rparr>"
  have "index_consistent ?st"
    using assms consistent_connect[of st now] by (simp add: registry_inv_def)
  moreover have "keys_distinct ?st"
    using assms by (simp add: registry_inv_def keys_distinct_def distinct_update)
  ultimately have "registry_inv ?st" by (simp add: registry_inv_def)
  moreover have "registry_inv (handleConnection (nextSocket st) now (st\<lparr>nextSocket := Suc (nextSocket st)\<rparr>))
      = registry_inv ?st"
    by (intro inv_cong) (simp_all add: handleConnection_def)
  ultimately show ?thesis by simp
qed

lemma onData_props:
  assumes "registry_inv st"
  shows "\<exists>st'. onData s chunk now st = Some st' \<and> registry_inv st' \<and> data_rel s st st'"
proof (cases "map_of (socketData st) s")
  case None
  then show ?thesis using assms by (simp add: onData_def data_rel_refl)
next
  case (Some data)
  let ?st1 = "st\<lparr>socketData :=
                 AList.update s (data\<lparr>buffer := buffer data @ chunk\<rparr>) (socketData st)\<rparr>"
  have i1: "registry_inv ?st1" using inv_session_update[OF assms Some] by simp
  have r1: "data_rel s st ?st1" by (rule data_rel_session_update[OF Some])
  obtain st2 where st2: "drainBuffer s now ?st1 = Some st2" "registry_inv st2" "data_rel s ?st1 st2"
    using drainBuffer_props[OF i1, of s now] by blast
  have r2: "data_rel s st st2" using r1 st2(3) data_rel_trans by blast
  show ?thesis
  proof (cases "map_of (socketData st2) s")
    case None
    then show ?thesis using Some st2 r2 by (simp add: onData_def Let_def)
  next
    case d2: (Some data2)
    show ?thesis
    proof (cases "length (buffer data2) > 4096")
      case False
      then show ?thesis using Some st2 r2 d2 by (simp add: onData_def Let_def)
    next
      case True
      let ?st3 = "sendToSocket s ''ERR message-too-long'' st2"
      let ?st4 = "?st3\<lparr>socketData := AList.update s (data2\<lparr>buffer := []\<rparr>) (socketData ?st3)\<rparr>"
      have e: "onData s chunk now st = Some ?st4"
        using Some st2 d2 True by (simp add: onData_def Let_def)
      have i3: "registry_inv ?st3" using st2(2) by simp
      have d3: "map_of (socketData ?st3) s = Some data2" using d2 by simp
      have i4: "registry_inv ?st4" using inv_session_update[OF i3 d3] by simp
      have "data_rel s st2 ?st3" by (rule data_rel_direct) (simp add: directReply_def)
      moreover have "data_rel s ?st3 ?st4" by (rule data_rel_session_update[OF d3])
      ultimately have "data_rel s st ?st4" using r2 data_rel_trans by blast
      then show ?thesis using e i4 by blast
    qed
  qed
qed

lemma inv_onEnd: "registry_inv st \<Longrightarrow> registry_inv (onEnd s st)"
proof -
  assume a: "registry_inv st"
  have "registry_inv (clearInterval s st) = registry_inv st"
    by (intro inv_cong) (simp_all add: clearInterval_def)
  then show ?thesis using a inv_removeUser by (simp add: onEnd_def)
qed

lemma inv_onError: "registry_inv st \<Longrightarrow> registry_inv (onError s st)"
proof -
  assume a: "registry_inv st"
  have "registry_inv (clearInterval s st) = registry_inv st"
    by (intro inv_cong) (simp_all add: clearInterval_def)
  then show ?thesis using a inv_removeUser by (simp add: onError_def)
qed

lemma inv_clearInterval [simp]: "registry_inv (clearInterval s st) = registry_inv st"
  by (intro inv_cong) (simp_all add: clearInterval_def)

lemma inv_destroy [simp]: "registry_inv (destroy s st) = registry_inv st"
  by (intro inv_cong) (simp_all add: destroy_def)

lemma inv_onTick: "registry_inv st \<Longrightarrow> registry_inv (onTick s now st)"
  by (auto simp: onTick_def Let_def inv_removeUser split: option.splits)

lemma destroy_foldl:
  "foldl (\<lambda>acc socket. destroy socket acc) st xs =
     st\<lparr>destroyed := destroyed st @ map (\<lambda>s. (s, length (written st))) xs\<rparr>"
  by (induction xs arbitrary: st) (auto simp: destroy_def)

lemma onSigint_eq:
  "onSigint st = st\<lparr>written := written st @
        map (\<lambda>t. (t, ''INFO server-shutting-down'' @ [newline])) (map snd (clients st)),
      destroyed := destroyed st @
        map (\<lambda>s. (s, length (written st) + length (clients st))) (map fst (socketData st)),
      accepting := False\<rparr>"
  by (simp add: onSigint_def Let_def broadcast_eq recipients_def destroy_foldl comp_def)

lemma inv_onSigint: "registry_inv st \<Longrightarrow> registry_inv (onSigint st)"
proof -
  assume a: "registry_inv st"
  have "registry_inv (onSigint st) = registry_inv st"
    by (intro inv_cong) (simp_all add: onSigint_eq)
  then show ?thesis using a by simp
qed

lemma step_props:
  assumes "registry_inv st"
  shows "\<exists>st'. step e st = Some st' \<and> registry_inv st'"
proof (cases "exitCode st \<noteq> None")
  case True
  then show ?thesis using assms by auto
next
  case False
  show ?thesis
  proof (cases e)
    case (Connect now)
    then show ?thesis using False inv_handleConnection[OF assms] assms by simp
  next
    case (Data s chunk now)
    then show ?thesis using False onData_props[OF assms, of s chunk now] assms by auto
  next
    case (End s)
    then show ?thesis using False inv_onEnd[OF assms] assms by simp
  next
    case (SocketError s)
    then show ?thesis using False inv_onError[OF assms] assms by simp
  next
    case (Tick s now)
    then show ?thesis using False inv_onTick[OF assms] assms by simp
  next
    case Sigint
    then show ?thesis using False inv_onSigint[OF assms] by simp
  next
    case ServerClosed
    have "registry_inv (onServerClosed st) = registry_inv st"
      by (intro inv_cong) (simp_all add: onServerClosed_def)
    then show ?thesis using ServerClosed False assms by simp
  qed
qed

lemma inv_initial: "registry_inv initial"
  by (simp add: registry_inv_def keys_distinct_def index_consistent_def initial_def)

lemma run_props:
  assumes "registry_inv st"
  shows "\<exists>st'. run evs st = Some st' \<and> registry_inv st'"
  using assms
proof (induction evs arbitrary: st)
  case Nil
  then show ?case by simp
next
  case (Cons e evs)
  obtain st1 where "step e st = Some st1" "registry_inv st1"
    using step_props[OF Cons.prems] by blast
  then show ?case using Cons.IH[of st1] by simp
qed

lemma run_inv: "run evs initial = Some st \<Longrightarrow> registry_inv st"
  using run_props[OF inv_initial, of evs] by auto

lemma inv_index_sockets:
  assumes "registry_inv st"
  shows "set (map snd (clients st)) =
         {t. \<exists>d u. map_of (socketData st) t = Some d \<and> username d = Some u}"
proof -
  have ic: "index_consistent st" and kd: "distinct (map fst (clients st))"
    using assms by (simp_all add: registry_inv_def keys_distinct_def)
  have "t \<in> set (map snd (clients st)) \<longleftrightarrow>
        (\<exists>d u. map_of (socketData st) t = Some d \<and> username d = Some u)" for t
  proof
    assume "t \<in> set (map snd (clients st))"
    then obtain u where "(u, t) \<in> set (clients st)" by auto
    then have "map_of (clients st) u = Some t" using kd by simp
    then show "\<exists>d u. map_of (socketData st) t = Some d \<and> username d = Some u"
      using consistentD_iff[OF ic, of u t] by blast
  next
    assume "\<exists>d u. map_of (socketData st) t = Some d \<and> username d = Some u"
    then obtain d u where "map_of (socketData st) t = Some d" "username d = Some u" by blast
    then have "map_of (clients st) u = Some t" using consistentD_iff[OF ic, of u t] by blast
    then have "(u, t) \<in> set (clients st)" by (rule map_of_SomeD)
    then show "t \<in> set (map snd (clients st))" by force
  qed
  then show ?thesis by blast
qed



lemma removeUser_writes:
  "\<exists>new. written (removeUser s notify st) = written st @ new \<and>
     (\<forall>(t, m) \<in> set new. t \<in> snd ` set (clients (removeUser s notify st)))"
  by (auto simp: removeUser_eq split: option.splits)

lemma step_writes:
  assumes "registry_inv st" "step e st = Some st'"
  shows "\<exists>new. written st' = written st @ new \<and>
     (\<forall>(t, m) \<in> set new. t \<in> snd ` set (clients st') \<or> (subject e = Some t \<and> directReply m))"
proof (cases "exitCode st \<noteq> None")
  case True
  then have "st' = st" using assms(2) by auto
  then show ?thesis by simp
next
  case False
  show ?thesis
  proof (cases e)
    case (Connect now)
    then have "written st' = written st" using assms(2) False
      by (auto simp: handleConnection_def split: if_splits)
    then show ?thesis by simp
  next
    case (Data s chunk now)
    obtain st2 where "onData s chunk now st = Some st2" "data_rel s st st2"
      using onData_props[OF assms(1), of s chunk now] by blast
    then have "data_rel s st st'" using assms(2) False Data by simp
    then show ?thesis unfolding data_rel_def using Data by (auto simp: subject_def)
  next
    case (End s)
    have "st' = removeUser s True (clearInterval s st)"
      using assms(2) False End by (simp add: onEnd_def)
    then show ?thesis
      using removeUser_writes[of s True "clearInterval s st"]
      by (auto simp: clearInterval_def)
  next
    case (SocketError s)
    have "st' = removeUser s False (clearInterval s st)"
      using assms(2) False SocketError by (simp add: onError_def)
    then show ?thesis
      using removeUser_writes[of s False "clearInterval s st"]
      by (auto simp: clearInterval_def)
  next
    case (Tick s now)
    show ?thesis
    proof (cases "s \<in> set (timers st) \<and> (\<exists>d. map_of (socketData st) s = Some d \<and>
                     int now - int (lastActivity d) > IDLE_TIMEOUT_MS)")
      case True
      let ?st1 = "sendToSocket s ''ERR idle-timeout'' st"
      have e: "st' = clearInterval s (destroy s (removeUser s True ?st1))"
        using assms(2) False Tick True by (auto simp: onTick_def Let_def)
      obtain new where new: "written (removeUser s True ?st1) = written ?st1 @ new"
        "\<forall>(t, m) \<in> set new. t \<in> snd ` set (clients (removeUser s True ?st1))"
        using removeUser_writes[of s True ?st1] by blast
      have w: "written st' = written st @ ((s, ''ERR idle-timeout'' @ [newline]) # new)"
        using e new(1) by (simp add: clearInterval_def destroy_def)
      have c: "clients st' = clients (removeUser s True ?st1)"
        using e by (simp add: clearInterval_def destroy_def)
      have "\<forall>(t, m) \<in> set ((s, ''ERR idle-timeout'' @ [newline]) # new).
              t \<in> snd ` set (clients st') \<or> (subject e = Some t \<and> directReply m)"
        using new(2) c Tick by (auto simp: subject_def directReply_def)
      then show ?thesis using w by blast
    next
      case F: False
      then have "written st' = written st"
        using assms(2) False Tick
        by (auto simp: onTick_def Let_def clearInterval_def split: option.splits)
      then show ?thesis by simp
    qed
  next
    case Sigint
    have "st' = onSigint st" using assms(2) False Sigint by simp
    then show ?thesis by (auto simp: onSigint_eq)
  next
    case ServerClosed
    then have "written st' = written st" using assms(2) False
      by (auto simp: onServerClosed_def split: if_splits)
    then show ?thesis by simp
  qed
qed

subsection \<open>Strings\<close>

lemma isNameChar_alphabet: "isNameChar c = (c \<in> set nameAlphabet)"
proof
  assume "c \<in> set nameAlphabet"
  then show "isNameChar c"
    unfolding nameAlphabet_def isNameChar_def Let_def by (elim  disjE | simp)+ 
next
  assume a: "isNameChar c"
  define n where "n = (of_char c :: nat)"
  have c: "c = char_of n" by (simp add: n_def)
  have "n \<in> {97..<123} \<union> ({65..<91} \<union> ({48..<58} \<union> {95, 45}))"
    using a unfolding isNameChar_def Let_def n_def by auto
  also have "{97..<123} \<union> ({65..<91} \<union> ({48..<58} \<union> {95, 45}))
      = set ([97..<123] @ [65..<91] @ [48..<58] @ [95, 45::nat])"
    by (simp only: set_append set_upt list.set)
  also have "[97..<123] @ [65..<91] @ [48..<58] @ [95, 45] = map of_char nameAlphabet"
    unfolding nameAlphabet_def by code_simp
  finally have "n \<in> of_char ` set nameAlphabet" by simp
  then obtain c' where "c' \<in> set nameAlphabet" "n = of_char c'" by blast
  then show "c \<in> set nameAlphabet" using c by simp
qed

lemma isValidUsername_specValidUsername: "isValidUsername n = specValidUsername n"
  by (cases n) (auto simp: isValidUsername_def specValidUsername_def list_all_iff isNameChar_alphabet)

lemma join_split: "join_sp (split_sp s) = s"
proof (induction s)
  case Nil
  show ?case by simp
next
  case (Cons c cs)
  show ?case
  proof (cases "split_sp cs")
    case Nil
    then show ?thesis using split_sp_nonempty by blast
  next
    case (Cons w ws)
    with Cons.IH show ?thesis by (cases ws) auto
  qed
qed

lemma split_sp_word:
  "CHR '' '' \<notin> set a \<Longrightarrow> split_sp (a @ CHR '' '' # b) = a # split_sp b"
  by (induction a) auto

lemma trim_decompose:
  "\<exists>a b. x = a @ trim x @ b \<and> list_all isWhiteSpace a \<and> list_all isWhiteSpace b"
proof -
  let ?y = "dropWhile isWhiteSpace x"
  have 1: "x = takeWhile isWhiteSpace x @ ?y" by simp
  have 2: "?y = trim x @ rev (takeWhile isWhiteSpace (rev ?y))"
    unfolding trim_def by (metis rev_append rev_rev_ident takeWhile_dropWhile_id)
  have 3: "x = takeWhile isWhiteSpace x @ trim x @ rev (takeWhile isWhiteSpace (rev ?y))"
    using 1 2 by metis
  have 4: "list_all isWhiteSpace (takeWhile isWhiteSpace x)"
    by (simp add: list_all_iff) (meson set_takeWhileD)
  have 5: "list_all isWhiteSpace (rev (takeWhile isWhiteSpace (rev ?y)))"
    by (simp add: list_all_iff) (meson set_takeWhileD)
  show ?thesis using 3 4 5 by blast
qed

lemma trim_last:
  assumes "trim x = a @ [c]"
  shows "\<not> isWhiteSpace c"
proof -
  let ?z = "rev (dropWhile isWhiteSpace x)"
  have "rev (trim x) = dropWhile isWhiteSpace ?z" by (simp add: trim_def)
  then have d: "dropWhile isWhiteSpace ?z = c # rev a" using assms by simp
  then have "dropWhile isWhiteSpace ?z \<noteq> []" by simp
  then have "\<not> isWhiteSpace (hd (dropWhile isWhiteSpace ?z))" by (rule hd_dropWhile)
  then show ?thesis using d by simp
qed

lemma trim_rest_nonempty:
  assumes "trim line = cmd @ '' '' @ target @ '' '' @ rest"
  shows "rest \<noteq> []"
proof
  assume "rest = []"
  then have "trim line = (cmd @ '' '' @ target) @ [CHR '' '']" using assms by simp
  then have "\<not> isWhiteSpace (CHR '' '')" by (rule trim_last)
  then show False by (simp add: isWhiteSpace_def)
qed

subsection \<open>Lines of the commands \<^verbatim>\<open>MSG\<close> and \<^verbatim>\<open>DM\<close>\<close>

lemma split_sp_single: "CHR '' '' \<notin> set a \<Longrightarrow> split_sp a = [a]"
  by (induction a) auto

lemma toUpper_nonempty: "toUpper c \<noteq> []"
  by (simp add: toUpper_def Let_def)

lemma toUpperCase_Nil_iff: "(toUpperCase s = []) = (s = [])"
  by (cases s) (simp_all add: toUpperCase_def toUpper_nonempty)

lemma trim_Nil_iff: "(trim x = []) = list_all isWhiteSpace x"
proof -
  have "(trim x = []) = (dropWhile isWhiteSpace (rev (dropWhile isWhiteSpace x)) = [])"
    by (simp add: trim_def)
  also have "\<dots> = (\<forall>c \<in> set (dropWhile isWhiteSpace x). isWhiteSpace c)"
    by (simp add: dropWhile_eq_Nil_conv)
  also have "\<dots> = (dropWhile isWhiteSpace x = [])"
  proof
    assume a: "\<forall>c \<in> set (dropWhile isWhiteSpace x). isWhiteSpace c"
    show "dropWhile isWhiteSpace x = []"
    proof (rule ccontr)
      assume ne: "dropWhile isWhiteSpace x \<noteq> []"
      then have "\<not> isWhiteSpace (hd (dropWhile isWhiteSpace x))" by (rule hd_dropWhile)
      moreover have "hd (dropWhile isWhiteSpace x) \<in> set (dropWhile isWhiteSpace x)"
        using ne by simp
      ultimately show False using a by blast
    qed
  next
    assume "dropWhile isWhiteSpace x = []"
    then show "\<forall>c \<in> set (dropWhile isWhiteSpace x). isWhiteSpace c" by (simp only: list.set ball_empty)
  qed
  also have "\<dots> = list_all isWhiteSpace x"
    by (simp add: dropWhile_eq_Nil_conv list_all_iff)
  finally show ?thesis .
qed

lemma trim_text_nonblank:
  assumes "trim line = a @ CHR '' '' # text"
  shows "text \<noteq> [] \<and> trim text \<noteq> []"
proof -
  have ne: "text \<noteq> []"
  proof
    assume "text = []"
    then have "trim line = a @ [CHR '' '']" using assms by simp
    then have "\<not> isWhiteSpace (CHR '' '')" by (rule trim_last)
    then show False by (simp add: isWhiteSpace_def)
  qed
  then have "trim line = (a @ CHR '' '' # butlast text) @ [last text]"
    using assms by simp
  then have "\<not> isWhiteSpace (last text)" by (rule trim_last)
  moreover have "last text \<in> set text" using ne by simp
  ultimately have "\<not> list_all isWhiteSpace text" by (auto simp: list_all_iff)
  then show ?thesis using ne by (simp add: trim_Nil_iff)
qed

lemma updateActivity_eq:
  "map_of (socketData st) s = Some d \<Longrightarrow>
   updateActivity s now st
     = st\<lparr>socketData := AList.update s (d\<lparr>lastActivity := now\<rparr>) (socketData st)\<rparr>"
  by (simp add: updateActivity_def)

lemma processCommand_MSG_bare:
  assumes d: "map_of (socketData st) s = Some d"
    and cmd: "toUpperCase cmd = ''MSG''" "CHR '' '' \<notin> set cmd"
    and line: "trim line = cmd"
  shows "processCommand s line now st = Some
           (st\<lparr>socketData := AList.update s (d\<lparr>lastActivity := now\<rparr>) (socketData st),
               written := written st @ [(s, ''ERR empty-message'' @ [newline])]\<rparr>)"
proof -
  have ne: "trim line \<noteq> []" using line cmd(1) toUpperCase_Nil_iff[of cmd] by auto
  have p: "split_sp (trim line) = [cmd]" using line cmd(2) by (simp add: split_sp_single)
  show ?thesis
    unfolding processCommand_def Let_def using ne cmd(1)
    by (simp add: p updateActivity_eq[OF d] sendToSocket_def)
qed

lemma processCommand_MSG_text:
  assumes d: "map_of (socketData st) s = Some d"
    and cmd: "toUpperCase cmd = ''MSG''" "CHR '' '' \<notin> set cmd"
    and line: "trim line = cmd @ '' '' @ text"
  shows "processCommand s line now st = Some
     (if \<not> truthy (username d) then
        st\<lparr>socketData := AList.update s (d\<lparr>lastActivity := now\<rparr>) (socketData st),
           written := written st @ [(s, ''ERR not-logged-in'' @ [newline])]\<rparr>
      else
        st\<lparr>socketData := AList.update s (d\<lparr>lastActivity := now\<rparr>) (socketData st),
           written := written st @
             map (\<lambda>t. (t, ''MSG '' @ the (username d) @ '' '' @ trim text @ [newline]))
                 (map snd (clients st))\<rparr>)"
proof -
  have ne: "trim line \<noteq> []" using line by simp
  have tx: "text \<noteq> []" "trim text \<noteq> []"
    using trim_text_nonblank[where a = cmd, OF line[simplified]] by simp_all
  have p: "split_sp (trim line) = cmd # split_sp text"
    using line cmd(2) by (simp add: split_sp_word)
  obtain w ws where ws: "split_sp text = w # ws"
    using split_sp_nonempty[of "text"] by (cases "split_sp text") auto
  have j: "join_sp (w # ws) = text" using join_split[of "text"] ws by simp
  let ?st1 = "updateActivity s now st"
  have st1: "?st1 = st\<lparr>socketData := AList.update s (d\<lparr>lastActivity := now\<rparr>) (socketData st)\<rparr>"
    by (rule updateActivity_eq[OF d])
  have d1: "map_of (socketData ?st1) s = Some (d\<lparr>lastActivity := now\<rparr>)"
    by (simp add: st1 update_conv')
  have "processCommand s line now st = handleMessage s text ?st1"
    unfolding processCommand_def Let_def using ne cmd(1) j
    by (simp add: p ws)
  also have "\<dots> = Some
     (if \<not> truthy (username d) then
        st\<lparr>socketData := AList.update s (d\<lparr>lastActivity := now\<rparr>) (socketData st),
           written := written st @ [(s, ''ERR not-logged-in'' @ [newline])]\<rparr>
      else
        st\<lparr>socketData := AList.update s (d\<lparr>lastActivity := now\<rparr>) (socketData st),
           written := written st @
             map (\<lambda>t. (t, ''MSG '' @ the (username d) @ '' '' @ trim text @ [newline]))
                 (map snd (clients st))\<rparr>)"
    unfolding handleMessage_eq[OF d1] using tx(2)
    by (simp add: st1 sendToSocket_def)
  finally show ?thesis .
qed

lemma processCommand_DM_short:
  assumes d: "map_of (socketData st) s = Some d"
    and cmd: "toUpperCase cmd = ''DM''" "CHR '' '' \<notin> set cmd"
    and target: "CHR '' '' \<notin> set target"
    and line: "trim line = cmd \<or> trim line = cmd @ '' '' @ target"
  shows "processCommand s line now st = Some
           (st\<lparr>socketData := AList.update s (d\<lparr>lastActivity := now\<rparr>) (socketData st),
               written := written st @ [(s, ''ERR invalid-dm-format'' @ [newline])]\<rparr>)"
proof -
  have c: "cmd \<noteq> []" using cmd(1) toUpperCase_Nil_iff[of cmd] by auto
  have ne: "trim line \<noteq> []" using line c by auto
  have p: "split_sp (trim line) = [cmd] \<or> split_sp (trim line) = [cmd, target]"
    using line cmd(2) target by (auto simp: split_sp_single split_sp_word)
  show ?thesis
    unfolding processCommand_def Let_def using ne cmd(1) p
    by (auto simp: updateActivity_eq[OF d] sendToSocket_def)
qed

lemma processCommand_DM_full:
  assumes d: "map_of (socketData st) s = Some d"
    and cmd: "toUpperCase cmd = ''DM''" "CHR '' '' \<notin> set cmd"
    and target: "CHR '' '' \<notin> set target"
    and line: "trim line = cmd @ '' '' @ target @ '' '' @ rest"
  shows "processCommand s line now st
         = handleDirectMessage s target rest (updateActivity s now st) \<and> rest \<noteq> []"
proof -
  have ne: "trim line \<noteq> []" using line by simp
  have rest: "rest \<noteq> []" by (rule trim_rest_nonempty[OF line])
  have p: "split_sp (trim line) = cmd # target # split_sp rest"
    using line cmd(2) target by (simp add: split_sp_word)
  obtain w ws where ws: "split_sp rest = w # ws"
    using split_sp_nonempty[of rest] by (cases "split_sp rest") auto
  have j: "join_sp (w # ws) = rest" using join_split[of rest] ws by simp
  have "processCommand s line now st = handleDirectMessage s target rest (updateActivity s now st)"
    unfolding processCommand_def Let_def using ne cmd(1) j
    by (simp add: p ws)
  then show ?thesis using rest by simp
qed

lemma toUpperCase_space:
  "CHR '' '' \<in> set cmd \<Longrightarrow> CHR '' '' \<in> set (toUpperCase cmd)"
proof -
  assume a: "CHR '' '' \<in> set cmd"
  have "toUpper (CHR '' '') = [CHR '' '']" by (simp add: toUpper_def Let_def)
  then have "CHR '' '' \<in> set (toUpper (CHR '' ''))" by simp
  then show ?thesis using a unfolding toUpperCase_def by (simp only: set_concat set_map) blast
qed

lemma MSG_no_space: "toUpperCase cmd = ''MSG'' \<Longrightarrow> CHR '' '' \<notin> set cmd"
  using toUpperCase_space[of cmd] by auto

lemma DM_no_space: "toUpperCase cmd = ''DM'' \<Longrightarrow> CHR '' '' \<notin> set cmd"
  using toUpperCase_space[of cmd] by auto

subsection \<open>A chunk with complete lines and a rest\<close>

lemma appendBuffer_simps [simp]:
  "clients (appendBuffer s r st) = clients st"
  "written (appendBuffer s r st) = written st"
  "destroyed (appendBuffer s r st) = destroyed st"
  "timers (appendBuffer s r st) = timers st"
  "accepting (appendBuffer s r st) = accepting st"
  "exitCode (appendBuffer s r st) = exitCode st"
  "nextSocket (appendBuffer s r st) = nextSocket st"
  by (simp_all add: appendBuffer_def split: option.splits)

















subsection \<open>The example states are reachable\<close>



lemma alice_and_two_run:
  "run [Connect 0, Connect 0, Connect 0, Data 0 ''LOGIN alice\<newline>'' 1] initial = Some alice_and_two"
  by code_simp

lemma alice_and_two_inv: "registry_inv alice_and_two"
  by (rule run_inv[OF alice_and_two_run])



section \<open>C1: the username index and the session store agree\<close>

text \<open>
  C1. After every sequence of events (connections, data chunks with any commands, ends of
  stream, socket errors, timer firings with idle eviction, the interrupt signal) the server
  is in a state, no handler having thrown, in which: each key occurs once in either Map; the
  username index maps \<open>u\<close> to socket \<open>s\<close> exactly when the session stored for \<open>s\<close> has its
  username field set to \<open>u\<close>; and two sessions never carry the same username. So no index
  entry dangles or is duplicated, and no operation breaks the correspondence.
\<close>

theorem registry_consistent:
  "\<exists>st. run evs initial = Some st \<and>
     distinct (map fst (clients st)) \<and>
     distinct (map fst (socketData st)) \<and>
     (\<forall>u s. map_of (clients st) u = Some s \<longleftrightarrow>
            (\<exists>d. map_of (socketData st) s = Some d \<and> username d = Some u)) \<and>
     (\<forall>u s1 d1 s2 d2.
        map_of (socketData st) s1 = Some d1 \<and> username d1 = Some u \<and>
        map_of (socketData st) s2 = Some d2 \<and> username d2 = Some u \<longrightarrow> s1 = s2)"
proof -
  obtain st where st: "run evs initial = Some st" "registry_inv st"
    using run_props[OF inv_initial, of evs] by blast
  have ic: "index_consistent st" and kd: "keys_distinct st"
    using st(2) by (simp_all add: registry_inv_def)
  have "\<forall>u s. map_of (clients st) u = Some s \<longleftrightarrow>
            (\<exists>d. map_of (socketData st) s = Some d \<and> username d = Some u)"
    using consistentD_iff[OF ic] by blast
  moreover have "\<forall>u s1 d1 s2 d2.
        map_of (socketData st) s1 = Some d1 \<and> username d1 = Some u \<and>
        map_of (socketData st) s2 = Some d2 \<and> username d2 = Some u \<longrightarrow> s1 = s2"
    using consistent_unique[OF ic] by blast
  ultimately show ?thesis using st(1) kd unfolding keys_distinct_def by blast
qed

text \<open>At a concrete run: two connections, \<^verbatim>\<open>alice\<close> logs in on the first, the second is refused
  that name and logs in as \<^verbatim>\<open>bob\<close>, then the first connection ends.\<close>

theorem registry_consistent_witness:
  "run [Connect 0, Connect 0, Data 0 ''LOGIN alice\<newline>'' 1, Data 1 ''LOGIN alice\<newline>'' 2,
        Data 1 ''LOGIN bob\<newline>'' 3, End 0] initial
   = Some \<lparr>clients = [(''bob'', 1)],
        socketData = [(1, \<lparr>username = Some ''bob'', lastActivity = 3, buffer = ''''\<rparr>)],
        written = [(0, ''OK\<newline>''), (1, ''ERR username-taken\<newline>''), (1, ''OK\<newline>''),
          (0, ''INFO bob joined\<newline>''), (1, ''INFO alice disconnected\<newline>'')],
        destroyed = [], timers = [1], accepting = True, exitCode = None, nextSocket = 2\<rparr>
   \<and> map_of [(''bob'', 1::nat)] ''bob'' = Some 1
   \<and> (\<exists>d. map_of [(1::nat, \<lparr>username = Some ''bob'', lastActivity = 3, buffer = ''''\<rparr>)] 1 = Some d
          \<and> username d = Some ''bob'')"
proof -
  let ?evs = "[Connect 0, Connect 0, Data 0 ''LOGIN alice\<newline>'' 1, Data 1 ''LOGIN alice\<newline>'' 2,
        Data 1 ''LOGIN bob\<newline>'' 3, End 0]"
  let ?S = "\<lparr>clients = [(''bob'', 1)],
        socketData = [(1, \<lparr>username = Some ''bob'', lastActivity = 3, buffer = ''''\<rparr>)],
        written = [(0, ''OK\<newline>''), (1, ''ERR username-taken\<newline>''), (1, ''OK\<newline>''),
          (0, ''INFO bob joined\<newline>''), (1, ''INFO alice disconnected\<newline>'')],
        destroyed = [], timers = [1], accepting = True, exitCode = None, nextSocket = 2\<rparr>"
  have r: "run ?evs initial = Some ?S" by code_simp
  obtain st where st: "run ?evs initial = Some st"
    and iff: "\<forall>u s. map_of (clients st) u = Some s \<longleftrightarrow>
            (\<exists>d. map_of (socketData st) s = Some d \<and> username d = Some u)"
    using registry_consistent[of ?evs] by blast
  have eq: "st = ?S" using r st by simp
  have c: "map_of (clients st) ''bob'' = Some 1" unfolding eq by simp
  then have "\<exists>d. map_of (socketData st) 1 = Some d \<and> username d = Some ''bob''"
    using iff by blast
  then show ?thesis using r c unfolding eq by simp
qed

section \<open>C2: LOGIN\<close>

text \<open>
  C2, as stated, has the join notice go to every other currently known session. The code
  broadcasts over the username index only: here socket 0 is connected and known to the server
  but has not logged in, socket 1 logs in as \<^verbatim>\<open>bob\<close>, and nothing is written to socket 0.
\<close>

theorem login_join_notice_counterexample:
  "run [Connect 0, Connect 0, Data 1 ''LOGIN bob\<newline>'' 5] initial = Some bob_joined
   \<and> map_of (socketData bob_joined) 0 = Some \<lparr>username = None, lastActivity = 0, buffer = ''''\<rparr>
   \<and> (0, ''INFO bob joined\<newline>'') \<notin> set (written bob_joined)"
  by code_simp

text \<open>
  C2, amended. For a session \<open>s\<close> of a state that satisfies the registry invariant, and every
  name \<open>n\<close>, \<^verbatim>\<open>handleLogin\<close> returns (it does not throw) and: if the username of \<open>s\<close> is set, the
  only effect is the reply \<^verbatim>\<open>ERR already-logged-in\<close>; otherwise, if \<open>n\<close> is not 1 to 20 characters
  of \<^verbatim>\<open>[a-zA-Z0-9_-]\<close>, the only effect is the reply \<^verbatim>\<open>ERR invalid-username\<close>; otherwise, if \<open>n\<close> is
  in the username index, the only effect is the reply \<^verbatim>\<open>ERR username-taken\<close>; otherwise the
  username of \<open>s\<close> becomes \<open>n\<close>, the entry \<open>n \<mapsto> s\<close> is added at the end of the index, \<^verbatim>\<open>OK\<close> is
  written to \<open>s\<close>, and \<^verbatim>\<open>INFO n joined\<close> is written to every socket of the index other than
  \<open>s\<close>, in index order. Those sockets are exactly the other sessions that have a username:
  a session that has not logged in receives no join notice.
\<close>

theorem login_outcome:
  assumes "registry_inv st" and "map_of (socketData st) s = Some d"
  shows "handleLogin s n st = Some
     (if username d \<noteq> None then
        st\<lparr>written := written st @ [(s, ''ERR already-logged-in\<newline>'')]\<rparr>
      else if \<not> specValidUsername n then
        st\<lparr>written := written st @ [(s, ''ERR invalid-username\<newline>'')]\<rparr>
      else if map_of (clients st) n \<noteq> None then
        st\<lparr>written := written st @ [(s, ''ERR username-taken\<newline>'')]\<rparr>
      else
        st\<lparr>socketData := AList.update s (d\<lparr>username := Some n\<rparr>) (socketData st),
           clients := clients st @ [(n, s)],
           written := written st @ (s, ''OK\<newline>'') #
             map (\<lambda>t. (t, ''INFO '' @ n @ '' joined\<newline>''))
                 (filter (\<lambda>t. t \<noteq> s) (map snd (clients st)))\<rparr>)
   \<and> set (filter (\<lambda>t. t \<noteq> s) (map snd (clients st))) =
       {t. t \<noteq> s \<and> (\<exists>d' u. map_of (socketData st) t = Some d' \<and> username d' = Some u)}"
proof -
  have t: "truthy (username d) = (username d \<noteq> None)"
    using inv_not_truthy[OF assms] by (cases "username d") auto
  have "set (filter (\<lambda>t. t \<noteq> s) (map snd (clients st))) =
       {t. t \<noteq> s \<and> (\<exists>d' u. map_of (socketData st) t = Some d' \<and> username d' = Some u)}"
    using inv_index_sockets[OF assms(1)] by auto
  then show ?thesis
    unfolding handleLogin_eq[OF assms(2)] t isValidUsername_specValidUsername
    by (simp add: sendToSocket_def newline_def)
qed

theorem login_outcome_witness:
  "registry_inv alice_and_two
   \<and> map_of (socketData alice_and_two) 1 = Some \<lparr>username = None, lastActivity = 0, buffer = ''''\<rparr>
   \<and> handleLogin 1 ''bob'' alice_and_two = Some
        (alice_and_two\<lparr>
           socketData := [(0, \<lparr>username = Some ''alice'', lastActivity = 1, buffer = ''''\<rparr>),
                          (1, \<lparr>username = Some ''bob'', lastActivity = 0, buffer = ''''\<rparr>),
                          (2, \<lparr>username = None, lastActivity = 0, buffer = ''''\<rparr>)],
           clients := [(''alice'', 0), (''bob'', 1)],
           written := [(0, ''OK\<newline>''), (1, ''OK\<newline>''), (0, ''INFO bob joined\<newline>'')]\<rparr>)
   \<and> handleLogin 1 ''alice'' alice_and_two = Some
        (alice_and_two\<lparr>written := [(0, ''OK\<newline>''), (1, ''ERR username-taken\<newline>'')]\<rparr>)
   \<and> handleLogin 1 ''bob smith'' alice_and_two = Some
        (alice_and_two\<lparr>written := [(0, ''OK\<newline>''), (1, ''ERR invalid-username\<newline>'')]\<rparr>)"
proof -
  have d: "map_of (socketData alice_and_two) 1
           = Some \<lparr>username = None, lastActivity = 0, buffer = ''''\<rparr>"
    by (simp add: alice_and_two_def)
  show ?thesis
    using login_outcome[OF alice_and_two_inv d, of "''bob''"]
      login_outcome[OF alice_and_two_inv d, of "''alice''"]
      login_outcome[OF alice_and_two_inv d, of "''bob smith''"]
      alice_and_two_inv d
    by (simp add: alice_and_two_def specValidUsername_def nameAlphabet_def)
qed

section \<open>C3: shutdown\<close>

text \<open>
  C3, as stated, has the shutdown notice reach every live session, those not yet logged in
  included. The code broadcasts over the username index: here socket 1 is connected and has
  not logged in; at the interrupt it is destroyed like socket 0, but only socket 0 is sent
  \<^verbatim>\<open>INFO server-shutting-down\<close>.
\<close>

theorem shutdown_notice_counterexample:
  "run [Connect 0, Connect 0, Data 0 ''LOGIN alice\<newline>'' 1, Sigint] initial = Some
     \<lparr>clients = [(''alice'', 0)],
      socketData = [(0, \<lparr>username = Some ''alice'', lastActivity = 1, buffer = ''''\<rparr>),
                    (1, \<lparr>username = None, lastActivity = 0, buffer = ''''\<rparr>)],
      written = [(0, ''OK\<newline>''), (0, ''INFO server-shutting-down\<newline>'')],
      destroyed = [(0, 2), (1, 2)], timers = [0, 1], accepting = False, exitCode = None,
      nextSocket = 2\<rparr>
   \<and> (1, ''INFO server-shutting-down\<newline>'')
       \<notin> set [(0::nat, ''OK\<newline>''), (0, ''INFO server-shutting-down\<newline>'')]"
  by code_simp

text \<open>
  C3, amended. On the interrupt signal, in a running server whose state satisfies the
  registry invariant, \<^verbatim>\<open>INFO server-shutting-down\<close> is written to every socket of the username
  index, which are exactly the sessions that have logged in, and to no other. Then every
  socket of the session store, logged in or not, is destroyed: each destroy is recorded with
  the number of lines written before it, and that number counts every one of the notices. Then
  the server stops accepting: its \<open>accepting\<close> flag is off, and any connection that arrives from
  now on changes nothing. The handler itself does not exit. The close of the server, which the
  runtime delivers once no connection is left open, is possible in the state the handler
  leaves, and its callback exits with code 0; after that no event changes the state.
\<close>

theorem shutdown_outcome:
  assumes "registry_inv st" and "exitCode st = None"
  shows "\<exists>st'. step Sigint st = Some st'
   \<and> st' = st\<lparr>written := written st @
                 map (\<lambda>t. (t, ''INFO server-shutting-down\<newline>'')) (map snd (clients st)),
               destroyed := destroyed st @
                 map (\<lambda>s. (s, length (written st) + length (map snd (clients st))))
                     (map fst (socketData st)),
               accepting := False\<rparr>
   \<and> set (map snd (clients st)) =
       {t. \<exists>d u. map_of (socketData st) t = Some d \<and> username d = Some u}
   \<and> (\<forall>now. step (Connect now) st' = Some st')
   \<and> exitCode st' = None
   \<and> step ServerClosed st' = Some (st'\<lparr>exitCode := Some 0\<rparr>)
   \<and> (\<forall>e. step e (st'\<lparr>exitCode := Some 0\<rparr>) = Some (st'\<lparr>exitCode := Some 0\<rparr>))"
proof -
  let ?st' = "onSigint st"
  have s: "step Sigint st = Some ?st'" using assms(2) by simp
  have e: "?st' =
     st\<lparr>written := written st @
           map (\<lambda>t. (t, ''INFO server-shutting-down\<newline>'')) (map snd (clients st)),
         destroyed := destroyed st @
           map (\<lambda>s. (s, length (written st) + length (map snd (clients st))))
               (map fst (socketData st)),
         accepting := False\<rparr>"
    by (simp add: onSigint_eq newline_def)
  have x: "exitCode ?st' = None" using assms(2) by (simp add: onSigint_eq)
  have a: "\<not> accepting ?st'" by (simp add: onSigint_eq)
  have c: "\<forall>now. step (Connect now) ?st' = Some ?st'"
    using x a by simp
  have "isDestroyed ?st' k" if "k \<in> set (map fst (socketData ?st'))" for k
  proof -
    have "k \<in> set (map fst (socketData st))" using that by (simp add: onSigint_eq)
    then have "(k, length (written st) + length (clients st)) \<in> set (destroyed ?st')"
      by (simp add: onSigint_eq image_iff)
    then show ?thesis unfolding isDestroyed_def by force
  qed
  then have d: "list_all (isDestroyed ?st') (map fst (socketData ?st'))"
    unfolding list_all_iff by blast
  have cl: "step ServerClosed ?st' = Some (?st'\<lparr>exitCode := Some 0\<rparr>)"
    using x a d by (simp add: onServerClosed_def)
  have f: "\<forall>e. step e (?st'\<lparr>exitCode := Some 0\<rparr>) = Some (?st'\<lparr>exitCode := Some 0\<rparr>)"
    by simp
  show ?thesis
    using s e inv_index_sockets[OF assms(1)] c x cl f by blast
qed

theorem shutdown_outcome_witness:
  "registry_inv alice_and_two \<and> exitCode alice_and_two = None
   \<and> step Sigint alice_and_two = Some
       (alice_and_two\<lparr>
          written := [(0, ''OK\<newline>''), (0, ''INFO server-shutting-down\<newline>'')],
          destroyed := [(0, 2), (1, 2), (2, 2)], accepting := False\<rparr>)
   \<and> step ServerClosed
         (alice_and_two\<lparr>
            written := [(0, ''OK\<newline>''), (0, ''INFO server-shutting-down\<newline>'')],
            destroyed := [(0, 2), (1, 2), (2, 2)], accepting := False\<rparr>)
       = Some
         (alice_and_two\<lparr>
            written := [(0, ''OK\<newline>''), (0, ''INFO server-shutting-down\<newline>'')],
            destroyed := [(0, 2), (1, 2), (2, 2)], accepting := False, exitCode := Some 0\<rparr>)"
proof -
  have e: "exitCode alice_and_two = None" by (simp add: alice_and_two_def)
  obtain st' where st': "step Sigint alice_and_two = Some st'"
    "st' = alice_and_two\<lparr>written := written alice_and_two @
                 map (\<lambda>t. (t, ''INFO server-shutting-down\<newline>'')) (map snd (clients alice_and_two)),
               destroyed := destroyed alice_and_two @
                 map (\<lambda>s. (s, length (written alice_and_two) + length (map snd (clients alice_and_two))))
                     (map fst (socketData alice_and_two)),
               accepting := False\<rparr>"
    "step ServerClosed st' = Some (st'\<lparr>exitCode := Some 0\<rparr>)"
    using shutdown_outcome[OF alice_and_two_inv e] by blast
  have v: "st' = alice_and_two\<lparr>
          written := [(0, ''OK\<newline>''), (0, ''INFO server-shutting-down\<newline>'')],
          destroyed := [(0, 2), (1, 2), (2, 2)], accepting := False\<rparr>"
    unfolding st'(2) by (simp add: alice_and_two_def)
  show ?thesis
    using st'(1,3) alice_and_two_inv e unfolding v by simp
qed

section \<open>C4: MSG\<close>

text \<open>
  C4, as stated, has a message go to all sessions, and has a session that is not logged in
  answered \<^verbatim>\<open>ERR not-logged-in\<close> whatever the text. In the code the broadcast runs over the
  username index: in the first run socket 1 is connected and has not logged in, \<^verbatim>\<open>alice\<close> on
  socket 0 sends \<^verbatim>\<open>MSG hello\<close>, and the message is written to socket 0 only. And
  \<^verbatim>\<open>processCommand\<close> answers a line that holds nothing after \<^verbatim>\<open>MSG\<close> before it looks at the
  session: in the second run socket 0 has not logged in, sends \<^verbatim>\<open>MSG\<close>, and is answered
  \<^verbatim>\<open>ERR empty-message\<close>.
\<close>

theorem message_fanout_counterexample:
  "run [Connect 0, Connect 0, Data 0 ''LOGIN alice\<newline>MSG hello\<newline>'' 1] initial = Some
     \<lparr>clients = [(''alice'', 0)],
      socketData = [(0, \<lparr>username = Some ''alice'', lastActivity = 1, buffer = ''''\<rparr>),
                    (1, \<lparr>username = None, lastActivity = 0, buffer = ''''\<rparr>)],
      written = [(0, ''OK\<newline>''), (0, ''MSG alice hello\<newline>'')],
      destroyed = [], timers = [0, 1], accepting = True, exitCode = None, nextSocket = 2\<rparr>
   \<and> (1, ''MSG alice hello\<newline>'')
       \<notin> set [(0::nat, ''OK\<newline>''), (0, ''MSG alice hello\<newline>'')]
   \<and> run [Connect 0, Data 0 ''MSG \<newline>'' 1] initial = Some
     \<lparr>clients = [],
      socketData = [(0, \<lparr>username = None, lastActivity = 1, buffer = ''''\<rparr>)],
      written = [(0, ''ERR empty-message\<newline>'')],
      destroyed = [], timers = [0], accepting = True, exitCode = None, nextSocket = 1\<rparr>"
  by code_simp

text \<open>
  C4, amended, for one line handed to \<^verbatim>\<open>processCommand\<close> on a session \<open>s\<close> of a state that
  satisfies the registry invariant. The line is a \<^verbatim>\<open>MSG\<close> line when its first token \<open>cmd\<close>, the
  trimmed line up to its first space, is \<^verbatim>\<open>MSG\<close> in upper case. The call returns, records the
  time of the line in the session, and:

  \<^item> if nothing follows the token (\<^verbatim>\<open>MSG\<close> alone, or followed by white space only, which the
    trim removes), the only write is \<^verbatim>\<open>ERR empty-message\<close> to \<open>s\<close>, whether \<open>s\<close> is logged in or
    not;
  \<^item> if a text follows the token and its space, that text is never blank; a session without
    a username gets \<^verbatim>\<open>ERR not-logged-in\<close> as the only write, and for a session with username
    \<open>u\<close> the line \<^verbatim>\<open>MSG u text\<close>, the text trimmed, is written to every socket of the username
    index, in index order, and to no other socket.

  The sockets of the index are exactly the sessions that have a username, the sender among
  them: a session that has not logged in receives nothing.
\<close>

theorem message_outcome:
  assumes "registry_inv st" and "map_of (socketData st) s = Some d"
    and "toUpperCase cmd = ''MSG''"
  shows "(trim line = cmd \<longrightarrow>
       processCommand s line now st = Some
         (st\<lparr>socketData := AList.update s (d\<lparr>lastActivity := now\<rparr>) (socketData st),
             written := written st @ [(s, ''ERR empty-message\<newline>'')]\<rparr>))
   \<and> (trim line = cmd @ '' '' @ text \<longrightarrow>
       trim text \<noteq> []
       \<and> processCommand s line now st = Some
         (case username d of
            None \<Rightarrow>
              st\<lparr>socketData := AList.update s (d\<lparr>lastActivity := now\<rparr>) (socketData st),
                 written := written st @ [(s, ''ERR not-logged-in\<newline>'')]\<rparr>
          | Some u \<Rightarrow>
              st\<lparr>socketData := AList.update s (d\<lparr>lastActivity := now\<rparr>) (socketData st),
                 written := written st @
                   map (\<lambda>t. (t, ''MSG '' @ u @ '' '' @ trim text @ ''\<newline>''))
                       (map snd (clients st))\<rparr>))
   \<and> set (map snd (clients st)) =
       {t. \<exists>d' u. map_of (socketData st) t = Some d' \<and> username d' = Some u}
   \<and> (username d \<noteq> None \<longrightarrow> s \<in> set (map snd (clients st)))"
proof -
  have sp: "CHR '' '' \<notin> set cmd" by (rule MSG_no_space[OF assms(3)])
  have t: "truthy (username d) = (username d \<noteq> None)"
    using inv_not_truthy[OF assms(1,2)] by (cases "username d") auto
  have i: "set (map snd (clients st)) =
       {t. \<exists>d' u. map_of (socketData st) t = Some d' \<and> username d' = Some u}"
    by (rule inv_index_sockets[OF assms(1)])
  have m: "username d \<noteq> None \<longrightarrow> s \<in> set (map snd (clients st))"
    unfolding i using assms(2) by auto
  have a: "trim line = cmd \<longrightarrow>
       processCommand s line now st = Some
         (st\<lparr>socketData := AList.update s (d\<lparr>lastActivity := now\<rparr>) (socketData st),
             written := written st @ [(s, ''ERR empty-message\<newline>'')]\<rparr>)"
    using processCommand_MSG_bare[OF assms(2,3) sp, of line now] by (simp add: newline_def)
  have b: "trim line = cmd @ '' '' @ text \<longrightarrow>
       trim text \<noteq> []
       \<and> processCommand s line now st = Some
         (case username d of
            None \<Rightarrow>
              st\<lparr>socketData := AList.update s (d\<lparr>lastActivity := now\<rparr>) (socketData st),
                 written := written st @ [(s, ''ERR not-logged-in\<newline>'')]\<rparr>
          | Some u \<Rightarrow>
              st\<lparr>socketData := AList.update s (d\<lparr>lastActivity := now\<rparr>) (socketData st),
                 written := written st @
                   map (\<lambda>t. (t, ''MSG '' @ u @ '' '' @ trim text @ ''\<newline>''))
                       (map snd (clients st))\<rparr>)"
  proof
    assume l: "trim line = cmd @ '' '' @ text"
    have nb: "trim text \<noteq> []"
      using trim_text_nonblank[where a = cmd, OF l[simplified]] by simp
    show "trim text \<noteq> []
       \<and> processCommand s line now st = Some
         (case username d of
            None \<Rightarrow>
              st\<lparr>socketData := AList.update s (d\<lparr>lastActivity := now\<rparr>) (socketData st),
                 written := written st @ [(s, ''ERR not-logged-in\<newline>'')]\<rparr>
          | Some u \<Rightarrow>
              st\<lparr>socketData := AList.update s (d\<lparr>lastActivity := now\<rparr>) (socketData st),
                 written := written st @
                   map (\<lambda>t. (t, ''MSG '' @ u @ '' '' @ trim text @ ''\<newline>''))
                       (map snd (clients st))\<rparr>)"
      using nb t unfolding processCommand_MSG_text[OF assms(2,3) sp l]
      by (cases "username d") (simp_all add: newline_def)
  qed
  show ?thesis using a b i m by (simp only: simp_thms)
qed

theorem message_outcome_witness:
  "registry_inv alice_and_two
   \<and> map_of (socketData alice_and_two) 0
       = Some \<lparr>username = Some ''alice'', lastActivity = 1, buffer = ''''\<rparr>
   \<and> map_of (socketData alice_and_two) 1 = Some \<lparr>username = None, lastActivity = 0, buffer = ''''\<rparr>
   \<and> toUpperCase ''msg'' = ''MSG''
   \<and> trim ''msg   hello  world  '' = ''msg'' @ '' '' @ ''  hello  world''
   \<and> processCommand 0 ''msg   hello  world  '' 9 alice_and_two = Some
        (alice_and_two\<lparr>
           socketData := [(0, \<lparr>username = Some ''alice'', lastActivity = 9, buffer = ''''\<rparr>),
                          (1, \<lparr>username = None, lastActivity = 0, buffer = ''''\<rparr>),
                          (2, \<lparr>username = None, lastActivity = 0, buffer = ''''\<rparr>)],
           written := [(0, ''OK\<newline>''), (0, ''MSG alice hello  world\<newline>'')]\<rparr>)
   \<and> trim ''msg  '' = ''msg''
   \<and> processCommand 0 ''msg  '' 9 alice_and_two = Some
        (alice_and_two\<lparr>
           socketData := [(0, \<lparr>username = Some ''alice'', lastActivity = 9, buffer = ''''\<rparr>),
                          (1, \<lparr>username = None, lastActivity = 0, buffer = ''''\<rparr>),
                          (2, \<lparr>username = None, lastActivity = 0, buffer = ''''\<rparr>)],
           written := [(0, ''OK\<newline>''), (0, ''ERR empty-message\<newline>'')]\<rparr>)
   \<and> processCommand 1 ''msg  '' 9 alice_and_two = Some
        (alice_and_two\<lparr>
           socketData := [(0, \<lparr>username = Some ''alice'', lastActivity = 1, buffer = ''''\<rparr>),
                          (1, \<lparr>username = None, lastActivity = 9, buffer = ''''\<rparr>),
                          (2, \<lparr>username = None, lastActivity = 0, buffer = ''''\<rparr>)],
           written := [(0, ''OK\<newline>''), (1, ''ERR empty-message\<newline>'')]\<rparr>)
   \<and> trim ''msg hello'' = ''msg'' @ '' '' @ ''hello''
   \<and> processCommand 1 ''msg hello'' 9 alice_and_two = Some
        (alice_and_two\<lparr>
           socketData := [(0, \<lparr>username = Some ''alice'', lastActivity = 1, buffer = ''''\<rparr>),
                          (1, \<lparr>username = None, lastActivity = 9, buffer = ''''\<rparr>),
                          (2, \<lparr>username = None, lastActivity = 0, buffer = ''''\<rparr>)],
           written := [(0, ''OK\<newline>''), (1, ''ERR not-logged-in\<newline>'')]\<rparr>)"
proof -
  have d0: "map_of (socketData alice_and_two) 0
           = Some \<lparr>username = Some ''alice'', lastActivity = 1, buffer = ''''\<rparr>"
    and d1: "map_of (socketData alice_and_two) 1
           = Some \<lparr>username = None, lastActivity = 0, buffer = ''''\<rparr>"
    by (simp_all add: alice_and_two_def)
  have u: "toUpperCase ''msg'' = ''MSG''" by code_simp
  have t: "trim ''msg   hello  world  '' = ''msg'' @ '' '' @ ''  hello  world''"
    "trim ''msg  '' = ''msg''" "trim ''msg hello'' = ''msg'' @ '' '' @ ''hello''"
    "trim ''  hello  world'' = ''hello  world''" "trim ''hello'' = ''hello''"
    by code_simp+
  show ?thesis
    using message_outcome[OF alice_and_two_inv d0 u, of "''msg   hello  world  ''" 9 "''  hello  world''"]
      message_outcome[OF alice_and_two_inv d0 u, of "''msg  ''" 9]
      message_outcome[OF alice_and_two_inv d1 u, of "''msg  ''" 9]
      message_outcome[OF alice_and_two_inv d1 u, of "''msg hello''" 9 "''hello''"]
      alice_and_two_inv d0 d1 u t
    by (simp add: alice_and_two_def)
qed

section \<open>C5: DM\<close>

text \<open>
  C5, as stated, has a sender that is not logged in always answered \<^verbatim>\<open>ERR not-logged-in\<close>.
  \<^verbatim>\<open>processCommand\<close> counts the tokens of a \<^verbatim>\<open>DM\<close> line before \<^verbatim>\<open>handleDirectMessage\<close> looks at
  the session: here socket 0 has not logged in, sends \<^verbatim>\<open>DM bob\<close>, and is answered
  \<^verbatim>\<open>ERR invalid-dm-format\<close>.
\<close>

theorem dm_short_line_counterexample:
  "run [Connect 0, Data 0 ''DM bob\<newline>'' 1] initial = Some
     \<lparr>clients = [],
      socketData = [(0, \<lparr>username = None, lastActivity = 1, buffer = ''''\<rparr>)],
      written = [(0, ''ERR invalid-dm-format\<newline>'')],
      destroyed = [], timers = [0], accepting = True, exitCode = None, nextSocket = 1\<rparr>"
  by code_simp

text \<open>
  C5, amended, for one line handed to \<^verbatim>\<open>processCommand\<close> on a session \<open>s\<close> present in the
  session store, from any state. The line is a \<^verbatim>\<open>DM\<close> line when its first token \<open>cmd\<close> is
  \<^verbatim>\<open>DM\<close> in upper case; \<open>target\<close> is its second token (it holds no space, and is empty when
  two spaces follow the command). The call returns, records the time of the line in the
  session, and decides in this order.

  \<^item> A line of fewer than three tokens, that is the command alone or the command and a
    target, gets \<^verbatim>\<open>ERR invalid-dm-format\<close>, whether the sender is logged in or not.
  \<^item> Otherwise a text follows the target and its space, and it is not empty. A sender that
    is not logged in gets \<^verbatim>\<open>ERR not-logged-in\<close>.
  \<^item> A logged-in sender with an empty target gets \<^verbatim>\<open>ERR invalid-dm-format\<close>.
  \<^item> A target equal to the sender's own username gets \<^verbatim>\<open>ERR cannot-dm-self\<close>, whatever the
    registry holds.
  \<^item> A target absent from the username index gets \<^verbatim>\<open>ERR user-not-found\<close>.
  \<^item> For a target in the index, \<^verbatim>\<open>DM sender text\<close> (the text trimmed) is written to the
    target's socket and then \<^verbatim>\<open>DM-SENT target\<close> to the sender.

  In each case these are the only writes and nothing else changes.
\<close>

theorem direct_message_outcome:
  assumes "map_of (socketData st) s = Some d"
    and "toUpperCase cmd = ''DM''"
    and "CHR '' '' \<notin> set target"
  shows "(trim line = cmd \<or> trim line = cmd @ '' '' @ target \<longrightarrow>
       processCommand s line now st = Some
         (st\<lparr>socketData := AList.update s (d\<lparr>lastActivity := now\<rparr>) (socketData st),
             written := written st @ [(s, ''ERR invalid-dm-format\<newline>'')]\<rparr>))
   \<and> (trim line = cmd @ '' '' @ target @ '' '' @ text \<longrightarrow>
       text \<noteq> []
       \<and> processCommand s line now st = Some
         (st\<lparr>socketData := AList.update s (d\<lparr>lastActivity := now\<rparr>) (socketData st),
             written := written st @
               (case username d of
                  None \<Rightarrow> [(s, ''ERR not-logged-in\<newline>'')]
                | Some u \<Rightarrow>
                    if u = [] then [(s, ''ERR not-logged-in\<newline>'')]
                    else if target = [] then [(s, ''ERR invalid-dm-format\<newline>'')]
                    else if target = u then [(s, ''ERR cannot-dm-self\<newline>'')]
                    else
                      (case map_of (clients st) target of
                         None \<Rightarrow> [(s, ''ERR user-not-found\<newline>'')]
                       | Some r \<Rightarrow>
                           [(r, ''DM '' @ u @ '' '' @ trim text @ ''\<newline>''),
                            (s, ''DM-SENT '' @ target @ ''\<newline>'')]))\<rparr>))"
proof -
  have sp: "CHR '' '' \<notin> set cmd" by (rule DM_no_space[OF assms(2)])
  let ?st1 = "st\<lparr>socketData := AList.update s (d\<lparr>lastActivity := now\<rparr>) (socketData st)\<rparr>"
  have st1: "updateActivity s now st = ?st1" by (rule updateActivity_eq[OF assms(1)])
  have d1: "map_of (socketData ?st1) s = Some (d\<lparr>lastActivity := now\<rparr>)"
    by (simp add: update_conv')
  have a: "trim line = cmd \<or> trim line = cmd @ '' '' @ target \<longrightarrow>
       processCommand s line now st = Some
         (st\<lparr>socketData := AList.update s (d\<lparr>lastActivity := now\<rparr>) (socketData st),
             written := written st @ [(s, ''ERR invalid-dm-format\<newline>'')]\<rparr>)"
    using processCommand_DM_short[OF assms(1,2) sp assms(3), of line now]
    by (simp add: newline_def)
  have b: "trim line = cmd @ '' '' @ target @ '' '' @ text \<longrightarrow>
       text \<noteq> []
       \<and> processCommand s line now st = Some
         (st\<lparr>socketData := AList.update s (d\<lparr>lastActivity := now\<rparr>) (socketData st),
             written := written st @
               (case username d of
                  None \<Rightarrow> [(s, ''ERR not-logged-in\<newline>'')]
                | Some u \<Rightarrow>
                    if u = [] then [(s, ''ERR not-logged-in\<newline>'')]
                    else if target = [] then [(s, ''ERR invalid-dm-format\<newline>'')]
                    else if target = u then [(s, ''ERR cannot-dm-self\<newline>'')]
                    else
                      (case map_of (clients st) target of
                         None \<Rightarrow> [(s, ''ERR user-not-found\<newline>'')]
                       | Some r \<Rightarrow>
                           [(r, ''DM '' @ u @ '' '' @ trim text @ ''\<newline>''),
                            (s, ''DM-SENT '' @ target @ ''\<newline>'')]))\<rparr>)"
  proof
    assume l: "trim line = cmd @ '' '' @ target @ '' '' @ text"
    have p: "processCommand s line now st = handleDirectMessage s target text ?st1"
      and ne: "text \<noteq> []"
      using processCommand_DM_full[OF assms(1,2) sp assms(3) l, of now] st1 by simp_all
    show "text \<noteq> []
       \<and> processCommand s line now st = Some
         (st\<lparr>socketData := AList.update s (d\<lparr>lastActivity := now\<rparr>) (socketData st),
             written := written st @
               (case username d of
                  None \<Rightarrow> [(s, ''ERR not-logged-in\<newline>'')]
                | Some u \<Rightarrow>
                    if u = [] then [(s, ''ERR not-logged-in\<newline>'')]
                    else if target = [] then [(s, ''ERR invalid-dm-format\<newline>'')]
                    else if target = u then [(s, ''ERR cannot-dm-self\<newline>'')]
                    else
                      (case map_of (clients st) target of
                         None \<Rightarrow> [(s, ''ERR user-not-found\<newline>'')]
                       | Some r \<Rightarrow>
                           [(r, ''DM '' @ u @ '' '' @ trim text @ ''\<newline>''),
                            (s, ''DM-SENT '' @ target @ ''\<newline>'')]))\<rparr>)"
      using ne unfolding p handleDirectMessage_eq[OF d1]
      by (cases "username d") (auto simp: sendToSocket_def newline_def split: option.splits)
  qed
  show ?thesis using a b by (simp only: simp_thms)
qed

theorem direct_message_outcome_witness:
  "map_of (socketData alice_and_bob) 0
     = Some \<lparr>username = Some ''alice'', lastActivity = 1, buffer = ''''\<rparr>
   \<and> map_of (socketData alice_and_bob) 2 = Some \<lparr>username = None, lastActivity = 0, buffer = ''''\<rparr>
   \<and> toUpperCase ''dm'' = ''DM''
   \<and> processCommand 0 ''dm bob  hi   there '' 9 alice_and_bob = Some
        (alice_and_bob\<lparr>
           socketData := [(0, \<lparr>username = Some ''alice'', lastActivity = 9, buffer = ''''\<rparr>),
                          (1, \<lparr>username = Some ''bob'', lastActivity = 2, buffer = ''''\<rparr>),
                          (2, \<lparr>username = None, lastActivity = 0, buffer = ''''\<rparr>)],
           written := [(0, ''OK\<newline>''), (1, ''OK\<newline>''), (0, ''INFO bob joined\<newline>''),
             (1, ''DM alice hi   there\<newline>''), (0, ''DM-SENT bob\<newline>'')]\<rparr>)
   \<and> processCommand 0 ''dm alice hi'' 9 alice_and_bob = Some
        (alice_and_bob\<lparr>
           socketData := [(0, \<lparr>username = Some ''alice'', lastActivity = 9, buffer = ''''\<rparr>),
                          (1, \<lparr>username = Some ''bob'', lastActivity = 2, buffer = ''''\<rparr>),
                          (2, \<lparr>username = None, lastActivity = 0, buffer = ''''\<rparr>)],
           written := [(0, ''OK\<newline>''), (1, ''OK\<newline>''), (0, ''INFO bob joined\<newline>''),
             (0, ''ERR cannot-dm-self\<newline>'')]\<rparr>)
   \<and> processCommand 0 ''dm carol hi'' 9 alice_and_bob = Some
        (alice_and_bob\<lparr>
           socketData := [(0, \<lparr>username = Some ''alice'', lastActivity = 9, buffer = ''''\<rparr>),
                          (1, \<lparr>username = Some ''bob'', lastActivity = 2, buffer = ''''\<rparr>),
                          (2, \<lparr>username = None, lastActivity = 0, buffer = ''''\<rparr>)],
           written := [(0, ''OK\<newline>''), (1, ''OK\<newline>''), (0, ''INFO bob joined\<newline>''),
             (0, ''ERR user-not-found\<newline>'')]\<rparr>)
   \<and> processCommand 0 ''dm  hi'' 9 alice_and_bob = Some
        (alice_and_bob\<lparr>
           socketData := [(0, \<lparr>username = Some ''alice'', lastActivity = 9, buffer = ''''\<rparr>),
                          (1, \<lparr>username = Some ''bob'', lastActivity = 2, buffer = ''''\<rparr>),
                          (2, \<lparr>username = None, lastActivity = 0, buffer = ''''\<rparr>)],
           written := [(0, ''OK\<newline>''), (1, ''OK\<newline>''), (0, ''INFO bob joined\<newline>''),
             (0, ''ERR invalid-dm-format\<newline>'')]\<rparr>)
   \<and> processCommand 0 ''dm bob'' 9 alice_and_bob = Some
        (alice_and_bob\<lparr>
           socketData := [(0, \<lparr>username = Some ''alice'', lastActivity = 9, buffer = ''''\<rparr>),
                          (1, \<lparr>username = Some ''bob'', lastActivity = 2, buffer = ''''\<rparr>),
                          (2, \<lparr>username = None, lastActivity = 0, buffer = ''''\<rparr>)],
           written := [(0, ''OK\<newline>''), (1, ''OK\<newline>''), (0, ''INFO bob joined\<newline>''),
             (0, ''ERR invalid-dm-format\<newline>'')]\<rparr>)
   \<and> processCommand 2 ''dm bob hi'' 9 alice_and_bob = Some
        (alice_and_bob\<lparr>
           socketData := [(0, \<lparr>username = Some ''alice'', lastActivity = 1, buffer = ''''\<rparr>),
                          (1, \<lparr>username = Some ''bob'', lastActivity = 2, buffer = ''''\<rparr>),
                          (2, \<lparr>username = None, lastActivity = 9, buffer = ''''\<rparr>)],
           written := [(0, ''OK\<newline>''), (1, ''OK\<newline>''), (0, ''INFO bob joined\<newline>''),
             (2, ''ERR not-logged-in\<newline>'')]\<rparr>)
   \<and> processCommand 2 ''dm'' 9 alice_and_bob = Some
        (alice_and_bob\<lparr>
           socketData := [(0, \<lparr>username = Some ''alice'', lastActivity = 1, buffer = ''''\<rparr>),
                          (1, \<lparr>username = Some ''bob'', lastActivity = 2, buffer = ''''\<rparr>),
                          (2, \<lparr>username = None, lastActivity = 9, buffer = ''''\<rparr>)],
           written := [(0, ''OK\<newline>''), (1, ''OK\<newline>''), (0, ''INFO bob joined\<newline>''),
             (2, ''ERR invalid-dm-format\<newline>'')]\<rparr>)"
proof -
  have d0: "map_of (socketData alice_and_bob) 0
           = Some \<lparr>username = Some ''alice'', lastActivity = 1, buffer = ''''\<rparr>"
    and d2: "map_of (socketData alice_and_bob) 2
           = Some \<lparr>username = None, lastActivity = 0, buffer = ''''\<rparr>"
    by (simp_all add: alice_and_bob_def)
  have u: "toUpperCase ''dm'' = ''DM''" by code_simp
  have t: "trim ''dm bob  hi   there '' = ''dm'' @ '' '' @ ''bob'' @ '' '' @ '' hi   there''"
    "trim ''dm alice hi'' = ''dm'' @ '' '' @ ''alice'' @ '' '' @ ''hi''"
    "trim ''dm carol hi'' = ''dm'' @ '' '' @ ''carol'' @ '' '' @ ''hi''"
    "trim ''dm  hi'' = ''dm'' @ '' '' @ '''' @ '' '' @ ''hi''"
    "trim ''dm bob'' = ''dm'' @ '' '' @ ''bob''"
    "trim ''dm bob hi'' = ''dm'' @ '' '' @ ''bob'' @ '' '' @ ''hi''"
    "trim ''dm'' = ''dm''"
    "trim '' hi   there'' = ''hi   there''" "trim ''hi'' = ''hi''"
    by code_simp+
  have n: "CHR '' '' \<notin> set ''bob''" "CHR '' '' \<notin> set ''alice''" "CHR '' '' \<notin> set ''carol''"
    "CHR '' '' \<notin> set ''''"
    by simp_all
  show ?thesis
    using direct_message_outcome[OF d0 u n(1), of "''dm bob  hi   there ''" 9 "'' hi   there''"]
      direct_message_outcome[OF d0 u n(2), of "''dm alice hi''" 9 "''hi''"]
      direct_message_outcome[OF d0 u n(3), of "''dm carol hi''" 9 "''hi''"]
      direct_message_outcome[OF d0 u n(4), of "''dm  hi''" 9 "''hi''"]
      direct_message_outcome[OF d0 u n(1), of "''dm bob''" 9]
      direct_message_outcome[OF d2 u n(1), of "''dm bob hi''" 9 "''hi''"]
      direct_message_outcome[OF d2 u n(1), of "''dm''" 9]
      d0 d2 u t
    by (simp add: alice_and_bob_def)
qed

section \<open>C6: the text of a DM line\<close>

text \<open>
  C6, as stated, has runs of several spaces in the text delivered as one space. Splitting
  at every single space and joining with a single space gives the text back unchanged: here
  \<^verbatim>\<open>DM bob hi   there\<close> is delivered with its three spaces.
\<close>

theorem dm_spacing_counterexample:
  "run [Connect 0, Connect 0, Data 0 ''LOGIN alice\<newline>'' 1, Data 1 ''LOGIN bob\<newline>'' 2,
        Data 0 ''DM bob hi   there\<newline>'' 3] initial = Some
     \<lparr>clients = [(''alice'', 0), (''bob'', 1)],
      socketData = [(0, \<lparr>username = Some ''alice'', lastActivity = 3, buffer = ''''\<rparr>),
                    (1, \<lparr>username = Some ''bob'', lastActivity = 2, buffer = ''''\<rparr>)],
      written = [(0, ''OK\<newline>''), (1, ''OK\<newline>''), (0, ''INFO bob joined\<newline>''),
                 (1, ''DM alice hi   there\<newline>''), (0, ''DM-SENT bob\<newline>'')],
      destroyed = [], timers = [0, 1], accepting = True, exitCode = None, nextSocket = 2\<rparr>
   \<and> ''DM alice hi   there\<newline>'' \<noteq> ''DM alice hi there\<newline>''"
  by code_simp

text \<open>
  C6, amended. Let the trimmed line be a command word that upper-cases to \<^verbatim>\<open>DM\<close>, one space, a
  target free of spaces, one space, and a remaining text. For a logged-in sender and a
  target in the username index other than the sender, the line delivered to the target is
  \<^verbatim>\<open>DM\<close>, the sender's username and the trimmed remaining text (and the sender is sent
  \<^verbatim>\<open>DM-SENT target\<close>). The trimmed text is the remaining text without the white space at its
  two ends: every character in between, runs of spaces included, is delivered as it was sent.
\<close>

theorem dm_text_verbatim:
  assumes line: "trim line = cmd @ '' '' @ target @ '' '' @ rest"
    and cmd: "CHR '' '' \<notin> set cmd" "toUpperCase cmd = ''DM''"
    and target: "CHR '' '' \<notin> set target" "target \<noteq> []"
    and sender: "map_of (socketData st) s = Some d" "username d = Some u" "u \<noteq> []" "target \<noteq> u"
    and recipient: "map_of (clients st) target = Some r"
  shows "processCommand s line now st = Some
           (st\<lparr>socketData := AList.update s (d\<lparr>lastActivity := now\<rparr>) (socketData st),
               written := written st @
                 [(r, ''DM '' @ u @ '' '' @ trim rest @ ''\<newline>''),
                  (s, ''DM-SENT '' @ target @ ''\<newline>'')]\<rparr>)
       \<and> (\<exists>a b. rest = a @ trim rest @ b \<and> list_all isWhiteSpace a \<and> list_all isWhiteSpace b)"
proof -
  have p: "split_sp (trim line) = cmd # target # split_sp rest"
    using line cmd(1) target(1) by (simp add: split_sp_word)
  obtain w ws where ws: "split_sp rest = w # ws"
    using split_sp_nonempty[of rest] by (cases "split_sp rest") auto
  have j: "join_sp (drop 2 (split_sp (trim line))) = rest"
    using p join_split[of rest] by simp
  have ne: "trim line \<noteq> []" using line by simp
  have rest: "rest \<noteq> []" by (rule trim_rest_nonempty[OF line])
  let ?st1 = "updateActivity s now st"
  have st1: "?st1 = st\<lparr>socketData := AList.update s (d\<lparr>lastActivity := now\<rparr>) (socketData st)\<rparr>"
    using sender(1) by (simp add: updateActivity_def)
  have d1: "map_of (socketData ?st1) s = Some (d\<lparr>lastActivity := now\<rparr>)"
    by (simp add: st1 update_conv')
  have "processCommand s line now st
        = handleDirectMessage s target rest ?st1"
    unfolding processCommand_def Let_def using ne p ws j cmd(2)
    by (simp add: p ws)
  also have "\<dots> = Some
           (st\<lparr>socketData := AList.update s (d\<lparr>lastActivity := now\<rparr>) (socketData st),
               written := written st @
                 [(r, ''DM '' @ u @ '' '' @ trim rest @ ''\<newline>''),
                  (s, ''DM-SENT '' @ target @ ''\<newline>'')]\<rparr>)"
    unfolding handleDirectMessage_eq[OF d1]
    using target(2) rest sender recipient
    by (simp add: st1 newline_def)
  finally show ?thesis using trim_decompose[of rest] by blast
qed

theorem dm_text_verbatim_witness:
  "trim ''dm bob  hi   there  '' = ''dm'' @ '' '' @ ''bob'' @ '' '' @ '' hi   there''
   \<and> toUpperCase ''dm'' = ''DM''
   \<and> processCommand 0 ''dm bob  hi   there  '' 9 alice_and_bob = Some
        (alice_and_bob\<lparr>
           socketData := [(0, \<lparr>username = Some ''alice'', lastActivity = 9, buffer = ''''\<rparr>),
                          (1, \<lparr>username = Some ''bob'', lastActivity = 2, buffer = ''''\<rparr>),
                          (2, \<lparr>username = None, lastActivity = 0, buffer = ''''\<rparr>)],
           written := [(0, ''OK\<newline>''), (1, ''OK\<newline>''), (0, ''INFO bob joined\<newline>''),
                       (1, ''DM alice hi   there\<newline>''), (0, ''DM-SENT bob\<newline>'')]\<rparr>)"
proof -
  have l: "trim ''dm bob  hi   there  '' = ''dm'' @ '' '' @ ''bob'' @ '' '' @ '' hi   there''"
    by code_simp
  have c: "CHR '' '' \<notin> set ''dm''" "toUpperCase ''dm'' = ''DM''"
    by (simp, code_simp)
  have t: "CHR '' '' \<notin> set ''bob''" "''bob'' \<noteq> []" by simp_all
  have d: "map_of (socketData alice_and_bob) 0
           = Some \<lparr>username = Some ''alice'', lastActivity = 1, buffer = ''''\<rparr>"
    by (simp add: alice_and_bob_def)
  have u: "username \<lparr>username = Some ''alice'', lastActivity = 1, buffer = ''''\<rparr> = Some ''alice''"
    "''alice'' \<noteq> []" "''bob'' \<noteq> ''alice''"
    by simp_all
  have b: "map_of (clients alice_and_bob) ''bob'' = Some 1" by (simp add: alice_and_bob_def)
  have tr: "trim '' hi   there'' = ''hi   there''" by code_simp
  show ?thesis
    using dm_text_verbatim[OF l c t d u b, of 9] l c(2)
    by (simp add: alice_and_bob_def tr)
qed

section \<open>C7: WHO\<close>



section \<open>C8: session removal\<close>

text \<open>
  C8. Session removal is idempotent. Calling \<^verbatim>\<open>removeUser\<close> on a socket a second time, with
  either value of \<^verbatim>\<open>notify\<close>, returns the state the first call produced: the write log is
  the same (no second departure announcement), both Maps are the same, and \<^verbatim>\<open>removeUser\<close>
  has no failing branch (its result is a state, not an optional one). This holds from every
  state, reachable or not.
\<close>

theorem removeUser_idempotent:
  "removeUser socket notify2 (removeUser socket notify1 st) = removeUser socket notify1 st"
  by (simp add: removeUser_def Let_def broadcast_eq delete_conv' delete_idem split: option.splits)

section \<open>C9: the input buffer ceiling\<close>




section \<open>C10: who receives a broadcast\<close>

text \<open>
  C10. In every reachable state, \<^verbatim>\<open>broadcast\<close> writes its message to the sockets of the
  username index other than the excluded one, and each of them belongs to a session that has
  a username. And for every event handled in a reachable state, each line written while
  handling it goes to a socket whose session has a username afterwards, or is a direct reply
  (an \<^verbatim>\<open>ERR\<close> line or \<^verbatim>\<open>PONG\<close>) to the socket the event came from. The same holds for
  every single command line handled in a reachable state. So a connected session that
  has not completed LOGIN is sent no join notice, no message fan-out, no departure
  announcement and no shutdown notice.
\<close>

theorem broadcasts_reach_only_logged_in:
  assumes "run evs initial = Some st" and "step e st = Some st'"
  shows "(\<forall>msg ex.
            written (broadcast msg ex st) =
              written st @ map (\<lambda>t. (t, msg @ ''\<newline>''))
                               (filter (\<lambda>t. Some t \<noteq> ex) (map snd (clients st))) \<and>
            (\<forall>t \<in> set (filter (\<lambda>t. Some t \<noteq> ex) (map snd (clients st))).
               \<exists>d u. map_of (socketData st) t = Some d \<and> username d = Some u))
       \<and> (\<exists>new. written st' = written st @ new \<and>
            (\<forall>(t, m) \<in> set new.
               (\<exists>d u. map_of (socketData st') t = Some d \<and> username d = Some u) \<or>
               (subject e = Some t \<and> directReply m)))
       \<and> (\<forall>s line now st1.
             processCommand s line now st = Some st1 \<longrightarrow>
             (\<exists>new. written st1 = written st @ new \<and>
                (\<forall>(t, m) \<in> set new.
                   (\<exists>d u. map_of (socketData st1) t = Some d \<and> username d = Some u) \<or>
                   (t = s \<and> directReply m))))"
proof -
  have inv: "registry_inv st" by (rule run_inv[OF assms(1)])
  have inv': "registry_inv st'" using step_props[OF inv, of e] assms(2) by auto
  have idx: "set (map snd (clients st)) =
         {t. \<exists>d u. map_of (socketData st) t = Some d \<and> username d = Some u}"
    by (rule inv_index_sockets[OF inv])
  have idx': "snd ` set (clients st') =
         {t. \<exists>d u. map_of (socketData st') t = Some d \<and> username d = Some u}"
    using inv_index_sockets[OF inv'] by simp
  have a: "\<forall>msg ex.
            written (broadcast msg ex st) =
              written st @ map (\<lambda>t. (t, msg @ ''\<newline>''))
                               (filter (\<lambda>t. Some t \<noteq> ex) (map snd (clients st))) \<and>
            (\<forall>t \<in> set (filter (\<lambda>t. Some t \<noteq> ex) (map snd (clients st))).
               \<exists>d u. map_of (socketData st) t = Some d \<and> username d = Some u)"
    using idx by (auto simp: broadcast_eq recipients_def newline_def)
  obtain new where new: "written st' = written st @ new"
    "\<forall>(t, m) \<in> set new. t \<in> snd ` set (clients st') \<or> (subject e = Some t \<and> directReply m)"
    using step_writes[OF inv assms(2)] by blast
  have "\<forall>(t, m) \<in> set new.
               (\<exists>d u. map_of (socketData st') t = Some d \<and> username d = Some u) \<or>
               (subject e = Some t \<and> directReply m)"
    using new(2) unfolding idx' by blast
  then have b: "\<exists>new. written st' = written st @ new \<and>
            (\<forall>(t, m) \<in> set new.
               (\<exists>d u. map_of (socketData st') t = Some d \<and> username d = Some u) \<or>
               (subject e = Some t \<and> directReply m))"
    using new(1) by blast
  have c: "\<exists>new. written st1 = written st @ new \<and>
                (\<forall>(t, m) \<in> set new.
                   (\<exists>d u. map_of (socketData st1) t = Some d \<and> username d = Some u) \<or>
                   (t = s \<and> directReply m))"
    if p: "processCommand s line now st = Some st1" for s line now st1
  proof -
    have inv1: "registry_inv st1" by (rule inv_processCommand[OF inv p])
    have idx1: "snd ` set (clients st1) =
         {t. \<exists>d u. map_of (socketData st1) t = Some d \<and> username d = Some u}"
      using inv_index_sockets[OF inv1] by simp
    obtain new1 where n1: "written st1 = written st @ new1"
      "\<forall>(t, m) \<in> set new1. t \<in> snd ` set (clients st1) \<or> (t = s \<and> directReply m)"
      using data_rel_processCommand[OF inv p] unfolding data_rel_def by blast
    have "\<forall>(t, m) \<in> set new1.
                   (\<exists>d u. map_of (socketData st1) t = Some d \<and> username d = Some u) \<or>
                   (t = s \<and> directReply m)"
      using n1(2) unfolding idx1 by blast
    then show ?thesis using n1(1) by blast
  qed
  show ?thesis using a b c by blast
qed

theorem broadcasts_reach_only_logged_in_witness:
  "run [Connect 0, Connect 0, Connect 0, Data 0 ''LOGIN alice\<newline>'' 1] initial = Some alice_and_two
   \<and> step (Data 0 ''MSG hi\<newline>'' 9) alice_and_two = Some
        (alice_and_two\<lparr>
           socketData := [(0, \<lparr>username = Some ''alice'', lastActivity = 9, buffer = ''''\<rparr>),
                          (1, \<lparr>username = None, lastActivity = 0, buffer = ''''\<rparr>),
                          (2, \<lparr>username = None, lastActivity = 0, buffer = ''''\<rparr>)],
           written := [(0, ''OK\<newline>''), (0, ''MSG alice hi\<newline>'')]\<rparr>)
   \<and> written (broadcast ''INFO x'' None alice_and_two) = [(0, ''OK\<newline>''), (0, ''INFO x\<newline>'')]"
proof -
  have s: "step (Data 0 ''MSG hi\<newline>'' 9) alice_and_two = Some
        (alice_and_two\<lparr>
           socketData := [(0, \<lparr>username = Some ''alice'', lastActivity = 9, buffer = ''''\<rparr>),
                          (1, \<lparr>username = None, lastActivity = 0, buffer = ''''\<rparr>),
                          (2, \<lparr>username = None, lastActivity = 0, buffer = ''''\<rparr>)],
           written := [(0, ''OK\<newline>''), (0, ''MSG alice hi\<newline>'')]\<rparr>)"
    by code_simp
  have "written (broadcast ''INFO x'' None alice_and_two) =
          written alice_and_two @ map (\<lambda>t. (t, ''INFO x'' @ ''\<newline>''))
             (filter (\<lambda>t. Some t \<noteq> None) (map snd (clients alice_and_two)))"
    using broadcasts_reach_only_logged_in[OF alice_and_two_run s] by blast
  then show ?thesis using alice_and_two_run s by (simp add: alice_and_two_def)
qed

end
